theory Spec2Isabelle
  imports Complex_Main "HOL-Library.Sublist" "HOL-Library.Char_ord" "HOL-Library.List_Lexorder"
begin

section \<open>Python values and strings\<close>

text \<open>
  The records served by \<^verbatim>\<open>load_spotify_data\<close> are JSON objects. A field value is one of
  the JSON scalars. A Python \<^verbatim>\<open>str\<close> is a list of characters; every \<^typ>\<open>char\<close> stands for
  one code point below 256. A JSON number with a fraction is carried as an exact rational:
  the binary rounding of Python's floats is outside this development.
\<close>

datatype pyval = PNone | PBool bool | PInt int | PFloat rat | PStr string

type_synonym song = "string \<rightharpoonup> pyval"

text \<open>
  The exceptions. The first five are subclasses of \<^verbatim>\<open>Exception\<close>;
  \<^verbatim>\<open>KeyboardInterrupt\<close> and \<^verbatim>\<open>SystemExit\<close> derive from \<^verbatim>\<open>BaseException\<close> only, so a
  handler \<^verbatim>\<open>except Exception\<close> lets them through.
\<close>

datatype error =
    AttributeError | TypeError | KeyError | ZeroDivisionError | OverflowError
  | KeyboardInterrupt | SystemExit

fun is_Exception :: "error \<Rightarrow> bool" where
  "is_Exception KeyboardInterrupt = False"
| "is_Exception SystemExit = False"
| "is_Exception e = True"

text \<open>\<^verbatim>\<open>song.get(key, default)\<close> and \<^verbatim>\<open>song[key]\<close>.\<close>

definition dict_get :: "song \<Rightarrow> string \<Rightarrow> pyval \<Rightarrow> pyval" where
  "dict_get s k d = (case s k of None \<Rightarrow> d | Some v \<Rightarrow> v)"

definition dict_item :: "song \<Rightarrow> string \<Rightarrow> error + pyval" where
  "dict_item s k = (case s k of None \<Rightarrow> Inl KeyError | Some v \<Rightarrow> Inr v)"

text \<open>Truth value of an object, as \<^verbatim>\<open>if x\<close> and \<^verbatim>\<open>not x\<close> test it.\<close>

fun truthy :: "pyval \<Rightarrow> bool" where
  "truthy PNone = False"
| "truthy (PBool b) = b"
| "truthy (PInt i) = (i \<noteq> 0)"
| "truthy (PFloat r) = (r \<noteq> 0)"
| "truthy (PStr s) = (s \<noteq> [])"

text \<open>
  \<^verbatim>\<open>str.isspace\<close> on the code points below 256: TAB to CR, FS to US, the space, NEL
  and the no-break space.
\<close>

definition isspace :: "char \<Rightarrow> bool" where
  "isspace c \<longleftrightarrow>
     c \<in> set [CHR 0x09, CHR 0x0A, CHR 0x0B, CHR 0x0C, CHR 0x0D,
              CHR 0x1C, CHR 0x1D, CHR 0x1E, CHR 0x1F, CHR 0x20, CHR 0x85, CHR 0xA0]"

text \<open>\<^verbatim>\<open>s.strip()\<close>: leading and trailing whitespace removed.\<close>

definition strip :: "string \<Rightarrow> string" where
  "strip s = rev (dropWhile isspace (rev (dropWhile isspace s)))"

text \<open>\<^verbatim>\<open>sep in s\<close>: \<open>sep\<close> occurs as a contiguous substring of \<open>s\<close>.\<close>

fun contains :: "string \<Rightarrow> string \<Rightarrow> bool" where
  "contains sep [] = (sep = [])"
| "contains sep (c # cs) = (prefix sep (c # cs) \<or> contains sep cs)"

text \<open>
  \<^verbatim>\<open>s.split(sep)\<close> for a non-empty separator: the string is scanned from the left, every
  occurrence of \<open>sep\<close> closes the current token and the scan resumes behind it. \<open>k\<close> counts
  the characters of a matched separator still to be skipped, \<open>cur\<close> is the current token,
  reversed.
\<close>

fun splitter :: "string \<Rightarrow> nat \<Rightarrow> string \<Rightarrow> string \<Rightarrow> string list" where
  "splitter sep k cur [] = [rev cur]"
| "splitter sep k cur (c # cs) =
     (if 0 < k then splitter sep (k - 1) cur cs
      else if prefix sep (c # cs) then rev cur # splitter sep (length sep - 1) [] cs
      else splitter sep 0 (c # cur) cs)"

definition py_split :: "string \<Rightarrow> string \<Rightarrow> string list" where
  "py_split sep s = splitter sep 0 [] s"

section \<open>Artist-name normalizer\<close>

text \<open>
  Lines 130--135 of \<^verbatim>\<open>get_graph_data\<close>: the list \<^verbatim>\<open>artists\<close> built from a field that
  is a \<^verbatim>\<open>str\<close>.
\<close>

definition split_artists :: "string \<Rightarrow> string list" where
  "split_artists s =
     (if contains '', '' s then map strip (py_split '', '' s)
      else if contains ''; '' s then map strip (py_split ''; '' s)
      else [strip s])"

text \<open>
  Lines 139--141: the loop over \<^verbatim>\<open>artists\<close> keeps a name when
  \<^verbatim>\<open>artist and artist.strip()\<close> holds and strips it once more.
\<close>

definition kept_artists :: "string list \<Rightarrow> string list" where
  "kept_artists artists = map strip (filter (\<lambda>a. a \<noteq> [] \<and> strip a \<noteq> []) artists)"

text \<open>
  Lines 123--141 (first loop): the names under which a record is filed in \<^verbatim>\<open>artist_songs\<close>.
  A falsy field skips the record; a field that is not a \<^verbatim>\<open>str\<close> is rendered by Python's
  builtin \<^verbatim>\<open>str\<close>, which is the parameter \<open>py_str\<close>.
\<close>

definition graph_artists :: "(pyval \<Rightarrow> string) \<Rightarrow> pyval \<Rightarrow> string list" where
  "graph_artists py_str artist_names =
     (if \<not> truthy artist_names then []
      else kept_artists (case artist_names of
              PStr s \<Rightarrow> split_artists s
            | _ \<Rightarrow> [py_str artist_names]))"

text \<open>
  Lines 176--189 (second loop): the names united into an album's artist set. There is no
  early exit here, and the undelimited branch tests the stripped field itself.
\<close>

definition album_artists :: "(pyval \<Rightarrow> string) \<Rightarrow> pyval \<Rightarrow> string list" where
  "album_artists py_str artist_names =
     kept_artists (case artist_names of
          PStr s \<Rightarrow>
            (if contains '', '' s then map strip (py_split '', '' s)
             else if contains ''; '' s then map strip (py_split ''; '' s)
             else if strip s \<noteq> [] then [strip s] else [])
        | _ \<Rightarrow> [py_str artist_names])"

text \<open>\<^verbatim>\<open>sep.join(ts)\<close>, the inverse of splitting.\<close>

fun join :: "string \<Rightarrow> string list \<Rightarrow> string" where
  "join sep [] = []"
| "join sep [t] = t"
| "join sep (t # u # ts) = t @ sep @ join sep (u # ts)"

section \<open>Numbers, grouping and ranking\<close>

text \<open>
  Numbers: an \<^verbatim>\<open>int\<close> is unbounded, a \<^verbatim>\<open>float\<close> is carried as the rational it stands
  for. \<^verbatim>\<open>bool\<close> is an \<^verbatim>\<open>int\<close>.
\<close>

datatype num = NInt int | NFloat rat

fun num_of :: "pyval \<Rightarrow> num option" where
  "num_of (PBool b) = Some (NInt (of_bool b))"
| "num_of (PInt i) = Some (NInt i)"
| "num_of (PFloat r) = Some (NFloat r)"
| "num_of PNone = None"
| "num_of (PStr s) = None"

fun num_val :: "num \<Rightarrow> rat" where
  "num_val (NInt i) = of_int i"
| "num_val (NFloat r) = r"

text \<open>
  The least magnitude that no longer rounds to a double: halfway between the largest
  double, \<open>2 ^ 1024 - 2 ^ 971\<close>, and \<open>2 ^ 1024\<close>. Converting an \<^verbatim>\<open>int\<close> of at least this
  magnitude to a \<^verbatim>\<open>float\<close> raises \<^verbatim>\<open>OverflowError\<close>.
\<close>

definition float_limit :: int where
  "float_limit = 2 ^ 1024 - 2 ^ 970"

definition to_float :: "num \<Rightarrow> error + rat" where
  "to_float x =
     (case x of
        NInt i \<Rightarrow> if float_limit \<le> \<bar>i\<bar> then Inl OverflowError else Inr (of_int i)
      | NFloat r \<Rightarrow> Inr r)"

text \<open>\<^verbatim>\<open>x + y\<close>: exact on two integers; otherwise both operands become floats.\<close>

definition py_add :: "num \<Rightarrow> num \<Rightarrow> error + num" where
  "py_add x y =
     (case (x, y) of
        (NInt a, NInt b) \<Rightarrow> Inr (NInt (a + b))
      | _ \<Rightarrow>
          (case to_float x of
             Inl e \<Rightarrow> Inl e
           | Inr a \<Rightarrow> (case to_float y of Inl e \<Rightarrow> Inl e | Inr b \<Rightarrow> Inr (NFloat (a + b)))))"

text \<open>
  \<^verbatim>\<open>x / y\<close>, true division. On two integers a zero divisor raises
  \<^verbatim>\<open>ZeroDivisionError\<close>, and a quotient that rounds beyond the largest double raises
  \<^verbatim>\<open>OverflowError\<close>. Otherwise both operands become floats first, and a zero divisor
  raises \<^verbatim>\<open>ZeroDivisionError\<close>.
\<close>

definition py_truediv :: "num \<Rightarrow> num \<Rightarrow> error + rat" where
  "py_truediv x y =
     (case (x, y) of
        (NInt a, NInt b) \<Rightarrow>
          if b = 0 then Inl ZeroDivisionError
          else if float_limit * \<bar>b\<bar> \<le> \<bar>a\<bar> then Inl OverflowError
          else Inr (of_int a / of_int b)
      | _ \<Rightarrow>
          (case to_float x of
             Inl e \<Rightarrow> Inl e
           | Inr a \<Rightarrow>
               (case to_float y of
                  Inl e \<Rightarrow> Inl e
                | Inr b \<Rightarrow> if b = 0 then Inl ZeroDivisionError else Inr (a / b))))"

text \<open>
  \<^verbatim>\<open>sum(s.get(key, 0) for s in songs)\<close>: the running total starts at the integer 0 and a
  value that is not a number raises \<^verbatim>\<open>TypeError\<close>.
\<close>

fun sum_get :: "string \<Rightarrow> num \<Rightarrow> song list \<Rightarrow> error + num" where
  "sum_get k acc [] = Inr acc"
| "sum_get k acc (s # ss) =
     (case num_of (dict_get s k (PInt 0)) of
        None \<Rightarrow> Inl TypeError
      | Some r \<Rightarrow> (case py_add acc r of Inl e \<Rightarrow> Inl e | Inr acc' \<Rightarrow> sum_get k acc' ss))"

text \<open>\<^verbatim>\<open>sum(song[key] for song in data)\<close>: a missing key raises \<^verbatim>\<open>KeyError\<close>.\<close>

fun sum_item :: "string \<Rightarrow> num \<Rightarrow> song list \<Rightarrow> error + num" where
  "sum_item k acc [] = Inr acc"
| "sum_item k acc (s # ss) =
     (case dict_item s k of
        Inl e \<Rightarrow> Inl e
      | Inr v \<Rightarrow>
          (case num_of v of
             None \<Rightarrow> Inl TypeError
           | Some r \<Rightarrow>
               (case py_add acc r of Inl e \<Rightarrow> Inl e | Inr acc' \<Rightarrow> sum_item k acc' ss)))"

text \<open>
  A \<^verbatim>\<open>dict\<close> whose values are lists, in insertion order. Lines 142--144:
  \<^verbatim>\<open>if k not in d: d[k] = []\<close> followed by \<^verbatim>\<open>d[k].append(v)\<close>.
\<close>

fun group_append :: "string \<Rightarrow> 'a \<Rightarrow> (string \<times> 'a list) list \<Rightarrow> (string \<times> 'a list) list" where
  "group_append k v [] = [(k, [v])]"
| "group_append k v ((k', vs) # d) =
     (if k' = k then (k', vs @ [v]) # d else (k', vs) # group_append k v d)"

text \<open>
  \<^verbatim>\<open>sorted(items, key=..., reverse=True)[:n]\<close>: Python's sort is stable and keeps
  the order of equal keys under \<^verbatim>\<open>reverse=True\<close>, so it is the stable ascending sort on
  the negated key.
\<close>

definition top_k :: "nat \<Rightarrow> ('a \<Rightarrow> nat) \<Rightarrow> 'a list \<Rightarrow> 'a list" where
  "top_k n key items = take n (sort_key (\<lambda>x. - int (key x)) items)"

section \<open>Graph builder\<close>

record node =
  node_id :: string
  node_name :: string
  node_type :: string
  node_size :: nat
  node_popularity :: rat

record link =
  link_source :: string
  link_target :: string
  link_value :: nat

record graph_stats =
  total_nodes :: nat
  total_links :: nat
  stats_artists :: nat
  stats_albums :: nat

text \<open>The three accumulators of \<^verbatim>\<open>get_graph_data\<close>.\<close>

record gstate =
  nodes :: "node list"
  links :: "link list"
  node_ids :: "string set"

text \<open>
  An entry of \<^verbatim>\<open>album_data\<close>. The Python \<^verbatim>\<open>set\<close> of artists is kept as a list without
  repetitions, in the order of first insertion; the order in which Python iterates over a
  set is not specified, and no statement below depends on it.
\<close>

record album_info =
  artists :: "string list"
  songs :: "song list"

definition set_add :: "string \<Rightarrow> string list \<Rightarrow> string list" where
  "set_add a as = (if a \<in> set as then as else as @ [a])"

text \<open>Lines 121--144: the first loop, filing every record under each of its artists.\<close>

definition artist_songs :: "(pyval \<Rightarrow> string) \<Rightarrow> song list \<Rightarrow> (string \<times> song list) list" where
  "artist_songs py_str data =
     foldl (\<lambda>d song.
        foldl (\<lambda>d artist. group_append artist song d) d
          (graph_artists py_str (dict_get song ''artist_names'' (PStr []))))
       [] data"

definition sorted_artists :: "(pyval \<Rightarrow> string) \<Rightarrow> song list \<Rightarrow> (string \<times> song list) list" where
  "sorted_artists py_str data = top_k 50 (\<lambda>x. length (snd x)) (artist_songs py_str data)"

text \<open>
  Lines 149--158. The popularity of a node is the quotient of line 150 before
  \<^verbatim>\<open>round(avg, 1)\<close>, which acts on a float and is not applied.
\<close>

definition artist_node :: "string \<Rightarrow> song list \<Rightarrow> rat \<Rightarrow> node" where
  "artist_node artist ss avg =
     \<lparr>node_id = ''artist_'' @ artist,
      node_name = artist,
      node_type = ''artist'',
      node_size = max 5 (min (length ss * 2) 30),
      node_popularity = avg\<rparr>"

fun add_artists :: "(string \<times> song list) list \<Rightarrow> gstate \<Rightarrow> error + gstate" where
  "add_artists [] g = Inr g"
| "add_artists ((artist, ss) # rest) g =
     (case (if ss \<noteq> []
            then (case sum_get ''popularity'' (NInt 0) ss of
                    Inl e \<Rightarrow> Inl e
                  | Inr t \<Rightarrow> py_truediv t (NInt (int (length ss))))
            else Inr 0) of
        Inl e \<Rightarrow> Inl e
      | Inr avg \<Rightarrow>
          add_artists rest
            (g\<lparr>nodes := nodes g @ [artist_node artist ss avg],
               node_ids := insert (''artist_'' @ artist) (node_ids g)\<rparr>))"

text \<open>
  Lines 163--167: the album key of a record. \<^verbatim>\<open>album.strip()\<close> on a truthy value that is
  not a \<^verbatim>\<open>str\<close> raises \<^verbatim>\<open>AttributeError\<close>.
\<close>

definition resolve_album :: "song \<Rightarrow> error + string" where
  "resolve_album song =
     (let album = dict_get song ''album_name'' (PStr ''Unknown Album'') in
      if \<not> truthy album then Inr (strip ''Unknown Album'')
      else (case album of
              PStr a \<Rightarrow> if strip a = [] then Inr (strip ''Unknown Album'') else Inr (strip a)
            | _ \<Rightarrow> Inl AttributeError))"

text \<open>Lines 169--173, and lines 187--190 applied to the entry of the album.\<close>

definition album_init :: "string \<Rightarrow> (string \<times> album_info) list \<Rightarrow> (string \<times> album_info) list" where
  "album_init album d =
     (if album \<in> fst ` set d then d else d @ [(album, \<lparr>artists = [], songs = []\<rparr>)])"

definition album_update :: "string \<Rightarrow> string list \<Rightarrow> song \<Rightarrow> (string \<times> album_info) list
    \<Rightarrow> (string \<times> album_info) list" where
  "album_update album names song d =
     map (\<lambda>(k, info).
            if k = album
            then (k, \<lparr>artists = foldl (\<lambda>as a. set_add a as) (artists info) names,
                      songs = songs info @ [song]\<rparr>)
            else (k, info)) d"

text \<open>Lines 161--190: the second loop.\<close>

fun album_data :: "(pyval \<Rightarrow> string) \<Rightarrow> song list \<Rightarrow> (string \<times> album_info) list
    \<Rightarrow> error + (string \<times> album_info) list" where
  "album_data py_str [] d = Inr d"
| "album_data py_str (song # rest) d =
     (case resolve_album song of
        Inl e \<Rightarrow> Inl e
      | Inr album \<Rightarrow>
          album_data py_str rest
            (album_update album
               (album_artists py_str (dict_get song ''artist_names'' (PStr [])))
               song (album_init album d)))"

definition sorted_albums :: "(string \<times> album_info) list \<Rightarrow> (string \<times> album_info) list" where
  "sorted_albums d = top_k 40 (\<lambda>x. length (songs (snd x))) d"

definition album_node :: "string \<Rightarrow> album_info \<Rightarrow> rat \<Rightarrow> node" where
  "album_node album info avg =
     \<lparr>node_id = ''album_'' @ album,
      node_name = (if 50 < length album then take 50 album @ ''...'' else album),
      node_type = ''album'',
      node_size = max 5 (min (length (songs info) + 5) 25),
      node_popularity = avg\<rparr>"

text \<open>Lines 212--219: the links of one album.\<close>

fun add_links :: "string \<Rightarrow> nat \<Rightarrow> string list \<Rightarrow> gstate \<Rightarrow> gstate" where
  "add_links album_id n [] g = g"
| "add_links album_id n (artist # rest) g =
     add_links album_id n rest
       (if ''artist_'' @ artist \<in> node_ids g
        then g\<lparr>links := links g @
                 [\<lparr>link_source = ''artist_'' @ artist, link_target = album_id, link_value = n\<rparr>]\<rparr>
        else g)"

text \<open>Lines 195--219.\<close>

fun add_albums :: "(string \<times> album_info) list \<Rightarrow> gstate \<Rightarrow> error + gstate" where
  "add_albums [] g = Inr g"
| "add_albums ((album, info) # rest) g =
     (if songs info = [] then add_albums rest g
      else (case sum_get ''popularity'' (NInt 0) (songs info) of
              Inl e \<Rightarrow> Inl e
            | Inr t \<Rightarrow>
                (case py_truediv t (NInt (int (length (songs info)))) of
                   Inl e \<Rightarrow> Inl e
                 | Inr avg_pop \<Rightarrow>
                     add_albums rest
                       (add_links (''album_'' @ album) (length (songs info)) (artists info)
                          (g\<lparr>nodes := nodes g @ [album_node album info avg_pop],
                             node_ids := insert (''album_'' @ album) (node_ids g)\<rparr>)))))"

text \<open>The body of the \<^verbatim>\<open>try\<close> block, lines 115--219, on the loaded records.\<close>

definition graph_body :: "(pyval \<Rightarrow> string) \<Rightarrow> song list \<Rightarrow> error + gstate" where
  "graph_body py_str data =
     (case add_artists (sorted_artists py_str data) \<lparr>nodes = [], links = [], node_ids = {}\<rparr> of
        Inl e \<Rightarrow> Inl e
      | Inr g \<Rightarrow>
          (case album_data py_str data [] of
             Inl e \<Rightarrow> Inl e
           | Inr d \<Rightarrow> add_albums (sorted_albums d) g))"

text \<open>
  What a call does: it returns the payload of lines 223--232, or its handler
  \<^verbatim>\<open>except Exception\<close> of lines 233--241 returns the exception with two empty lists, or
  an exception that the handler does not catch leaves the function.
\<close>

datatype graph_response =
    GraphOk "node list" "link list" graph_stats
  | GraphError error "node list" "link list"
  | Propagated error

definition get_graph_data :: "(pyval \<Rightarrow> string) \<Rightarrow> song list \<Rightarrow> graph_response" where
  "get_graph_data py_str data =
     (case graph_body py_str data of
        Inr g \<Rightarrow>
          GraphOk (nodes g) (links g)
            \<lparr>total_nodes = length (nodes g),
             total_links = length (links g),
             stats_artists = length (filter (\<lambda>n. node_type n = ''artist'') (nodes g)),
             stats_albums = length (filter (\<lambda>n. node_type n = ''album'') (nodes g))\<rparr>
      | Inl e \<Rightarrow> if is_Exception e then GraphError e [] [] else Propagated e)"

fun response_nodes :: "graph_response \<Rightarrow> node list" where
  "response_nodes (GraphOk ns ls st) = ns"
| "response_nodes (GraphError e ns ls) = ns"
| "response_nodes (Propagated e) = []"

fun response_links :: "graph_response \<Rightarrow> link list" where
  "response_links (GraphOk ns ls st) = ls"
| "response_links (GraphError e ns ls) = ls"
| "response_links (Propagated e) = []"

section \<open>Statistics aggregator\<close>

text \<open>
  Equality of dictionary keys: numbers are compared by value (\<^verbatim>\<open>True == 1 == 1.0\<close>),
  everything else structurally.
\<close>

definition py_eq :: "pyval \<Rightarrow> pyval \<Rightarrow> bool" where
  "py_eq a b =
     (case (num_of a, num_of b) of
        (Some x, Some y) \<Rightarrow> num_val x = num_val y
      | (None, None) \<Rightarrow> a = b
      | _ \<Rightarrow> False)"

text \<open>
  \<^verbatim>\<open>Counter\<close>: a dictionary of counts in insertion order; the key that is kept is the one
  inserted first.
\<close>

fun counter_add :: "('a \<Rightarrow> 'a \<Rightarrow> bool) \<Rightarrow> 'a \<Rightarrow> ('a \<times> nat) list \<Rightarrow> ('a \<times> nat) list" where
  "counter_add eq k [] = [(k, 1)]"
| "counter_add eq k ((k', n) # d) =
     (if eq k' k then (k', n + 1) # d else (k', n) # counter_add eq k d)"

definition counter :: "('a \<Rightarrow> 'a \<Rightarrow> bool) \<Rightarrow> 'a list \<Rightarrow> ('a \<times> nat) list" where
  "counter eq xs = foldl (\<lambda>d x. counter_add eq x d) [] xs"

text \<open>
  \<^verbatim>\<open>most_common(n)\<close> is \<^verbatim>\<open>heapq.nlargest(n, items, key=count)\<close>, which returns what
  \<^verbatim>\<open>sorted(items, key=count, reverse=True)[:n]\<close> returns.
\<close>

definition most_common :: "nat \<Rightarrow> ('a \<times> nat) list \<Rightarrow> ('a \<times> nat) list" where
  "most_common n d = top_k n snd d"

text \<open>A comprehension over the records that stops at the first exception.\<close>

fun collect :: "(song \<Rightarrow> error + 'a list) \<Rightarrow> song list \<Rightarrow> error + 'a list" where
  "collect f [] = Inr []"
| "collect f (s # ss) =
     (case f s of
        Inl e \<Rightarrow> Inl e
      | Inr xs \<Rightarrow> (case collect f ss of Inl e \<Rightarrow> Inl e | Inr ys \<Rightarrow> Inr (xs @ ys)))"

text \<open>Line 42 of \<^verbatim>\<open>get_statistics\<close>: the artists of one record.\<close>

definition song_artists :: "song \<Rightarrow> error + pyval list" where
  "song_artists s =
     (case dict_item s ''artist_names'' of
        Inl e \<Rightarrow> Inl e
      | Inr v \<Rightarrow> (case v of PStr a \<Rightarrow> Inr (map PStr (py_split '', '' a)) | _ \<Rightarrow> Inr [v]))"

definition song_album :: "song \<Rightarrow> error + pyval list" where
  "song_album s =
     (case dict_item s ''album_name'' of Inl e \<Rightarrow> Inl e | Inr v \<Rightarrow> Inr [v])"

text \<open>Lines 55--57: slicing a truthy value that is not a \<^verbatim>\<open>str\<close> raises \<^verbatim>\<open>TypeError\<close>.\<close>

definition song_year :: "song \<Rightarrow> error + string list" where
  "song_year s =
     (case dict_item s ''album_release_date'' of
        Inl e \<Rightarrow> Inl e
      | Inr v \<Rightarrow>
          if truthy v then (case v of PStr d \<Rightarrow> Inr [take 4 d] | _ \<Rightarrow> Inl TypeError)
          else Inr [])"

text \<open>
  \<^verbatim>\<open>int(year)\<close>: surrounding whitespace, an optional sign, then decimal digits with single
  underscores between digits; anything else raises, which the bare \<^verbatim>\<open>except\<close> of line 65
  turns into skipping the year. The whitespace that \<^verbatim>\<open>int\<close> accepts is that of
  \<^verbatim>\<open>str.strip\<close> without the four separators FS to US.
\<close>

definition int_space :: "char \<Rightarrow> bool" where
  "int_space c \<longleftrightarrow>
     c \<in> set [CHR 0x09, CHR 0x0A, CHR 0x0B, CHR 0x0C, CHR 0x0D, CHR 0x20, CHR 0x85, CHR 0xA0]"

definition is_digit :: "char \<Rightarrow> bool" where
  "is_digit c = (48 \<le> (of_char c :: nat) \<and> (of_char c :: nat) \<le> 57)"

fun digits_val :: "nat \<Rightarrow> string \<Rightarrow> nat option" where
  "digits_val acc [] = Some acc"
| "digits_val acc (c # cs) =
     (if is_digit c then digits_val (acc * 10 + (of_char c - 48)) cs
      else if c = CHR ''_'' \<and> cs \<noteq> [] \<and> is_digit (hd cs) then digits_val acc cs
      else None)"

definition py_int :: "string \<Rightarrow> int option" where
  "py_int s =
     (let t = rev (dropWhile int_space (rev (dropWhile int_space s)));
          neg = (t \<noteq> [] \<and> hd t = CHR ''-'');
          body = (if t \<noteq> [] \<and> (hd t = CHR ''-'' \<or> hd t = CHR ''+'') then tl t else t)
      in if body = [] \<or> \<not> is_digit (hd body) then None
         else map_option (\<lambda>n. if neg then - int n else int n) (digits_val 0 body))"

text \<open>The decimal rendering of an integer, as an f-string prints it.\<close>

fun show_nat :: "nat \<Rightarrow> string" where
  "show_nat n =
     (if n < 10 then [char_of (48 + n)]
      else show_nat (n div 10) @ [char_of (48 + n mod 10)])"

definition show_int :: "int \<Rightarrow> string" where
  "show_int i = (if i < 0 then CHR ''-'' # show_nat (nat (- i)) else show_nat (nat i))"

text \<open>Lines 60--68: the decade of every year that parses, counted and sorted by label.\<close>

definition decade_labels :: "string list \<Rightarrow> string list" where
  "decade_labels years =
     concat (map (\<lambda>year. case py_int year of
                            None \<Rightarrow> []
                          | Some y \<Rightarrow> [show_int ((y div 10) * 10) @ ''s'']) years)"

definition decade_distribution_of :: "string list \<Rightarrow> (string \<times> nat) list" where
  "decade_distribution_of years = sort_key fst (counter (=) (decade_labels years))"

text \<open>
  Lines 71--90: the five counters and the chain of comparisons. Comparing a value that is
  not a number with an integer raises \<^verbatim>\<open>TypeError\<close>.
\<close>

definition popularity_init :: "(string \<times> nat) list" where
  "popularity_init = [(''0-20'', 0), (''21-40'', 0), (''41-60'', 0), (''61-80'', 0), (''81-100'', 0)]"

definition popularity_range :: "pyval \<Rightarrow> error + string" where
  "popularity_range pop =
     (case num_of pop of
        None \<Rightarrow> Inl TypeError
      | Some p \<Rightarrow>
          Inr (if num_val p \<le> 20 then ''0-20''
               else if num_val p \<le> 40 then ''21-40''
               else if num_val p \<le> 60 then ''41-60''
               else if num_val p \<le> 80 then ''61-80''
               else ''81-100''))"

definition bump :: "string \<Rightarrow> (string \<times> nat) list \<Rightarrow> (string \<times> nat) list" where
  "bump k d = map (\<lambda>(k', n). if k' = k then (k', n + 1) else (k', n)) d"

fun popularity_ranges :: "song list \<Rightarrow> (string \<times> nat) list \<Rightarrow> error + (string \<times> nat) list" where
  "popularity_ranges [] d = Inr d"
| "popularity_ranges (s # ss) d =
     (case dict_item s ''popularity'' of
        Inl e \<Rightarrow> Inl e
      | Inr pop \<Rightarrow>
          (case popularity_range pop of
             Inl e \<Rightarrow> Inl e
           | Inr k \<Rightarrow> popularity_ranges ss (bump k d)))"

text \<open>Line 37: \<^verbatim>\<open>sum(1 for song in data if song['explicit'])\<close>.\<close>

fun count_explicit :: "nat \<Rightarrow> song list \<Rightarrow> error + nat" where
  "count_explicit acc [] = Inr acc"
| "count_explicit acc (s # ss) =
     (case dict_item s ''explicit'' of
        Inl e \<Rightarrow> Inl e
      | Inr v \<Rightarrow> count_explicit (if truthy v then acc + 1 else acc) ss)"

text \<open>
  The payload of lines 94--107. The four rounded fields hold the exact value that is
  passed to \<^verbatim>\<open>round\<close>.
\<close>

record statistics =
  total_songs :: nat
  total_hours :: rat
  avg_popularity :: rat
  avg_duration_min :: rat
  explicit_count :: nat
  explicit_percentage :: rat
  total_artists :: nat
  total_albums :: nat
  top_artists :: "(pyval \<times> nat) list"
  top_albums :: "(pyval \<times> nat) list"
  decade_distribution :: "(string \<times> nat) list"
  popularity_distribution :: "(string \<times> nat) list"

text \<open>
  \<^verbatim>\<open>sum(song[key] for song in data) / total_songs if total_songs > 0 else 0\<close>: the
  condition is tested first, so the division is not reached on the empty list.
\<close>

definition mean_item :: "string \<Rightarrow> song list \<Rightarrow> error + rat" where
  "mean_item k data =
     (if 0 < length data
      then (case sum_item k (NInt 0) data of
              Inl e \<Rightarrow> Inl e
            | Inr t \<Rightarrow> py_truediv t (NInt (int (length data))))
      else Inr 0)"

text \<open>Sequencing: an exception of the first step skips the rest.\<close>

definition and_then :: "error + 'a \<Rightarrow> ('a \<Rightarrow> error + 'b) \<Rightarrow> error + 'b" where
  "and_then m f = (case m of Inl e \<Rightarrow> Inl e | Inr x \<Rightarrow> f x)"

text \<open>
  \<^verbatim>\<open>get_statistics\<close>, lines 30--107, on the loaded records. There is no handler: the
  first exception ends the computation.
\<close>

definition get_statistics :: "song list \<Rightarrow> error + statistics" where
  "get_statistics data =
     and_then (sum_item ''duration_ms'' (NInt 0) data) (\<lambda>total_duration_ms.
     and_then (py_truediv total_duration_ms (NInt (1000 * 60 * 60))) (\<lambda>hours.
     and_then (mean_item ''popularity'' data) (\<lambda>avg_pop.
     and_then (mean_item ''duration_minutes'' data) (\<lambda>avg_dur.
     and_then (count_explicit 0 data) (\<lambda>n_explicit.
     and_then (collect song_artists data) (\<lambda>all_artists.
     and_then (collect song_album data) (\<lambda>all_albums.
     and_then (collect song_year data) (\<lambda>years.
     and_then (popularity_ranges data popularity_init) (\<lambda>ranges.
     and_then (if 0 < length data
               then and_then (py_truediv (NInt (int n_explicit)) (NInt (int (length data))))
                      (\<lambda>q. Inr (q * 100))
               else Inr 0) (\<lambda>percentage.
        Inr \<lparr>total_songs = length data,
             total_hours = hours,
             avg_popularity = avg_pop,
             avg_duration_min = avg_dur,
             explicit_count = n_explicit,
             explicit_percentage = percentage,
             total_artists = length (counter py_eq all_artists),
             total_albums = length (counter py_eq all_albums),
             top_artists = most_common 10 (counter py_eq all_artists),
             top_albums = most_common 10 (counter py_eq all_albums),
             decade_distribution = decade_distribution_of years,
             popularity_distribution = ranges\<rparr>))))))))))"

section \<open>Notions used to state the properties\<close>

text \<open>The identifier, kind and size of a node.\<close>

definition node_shape :: "node \<Rightarrow> string \<times> string \<times> nat" where
  "node_shape n = (node_id n, node_type n, node_size n)"

text \<open>The artists-names field and the album key as \<^verbatim>\<open>get_graph_data\<close> reads them.\<close>

definition artist_field :: "song \<Rightarrow> pyval" where
  "artist_field s = dict_get s ''artist_names'' (PStr [])"

text \<open>The records whose album key is \<open>album\<close>, in order.\<close>

definition album_songs :: "song list \<Rightarrow> string \<Rightarrow> song list" where
  "album_songs data album = filter (\<lambda>s. resolve_album s = Inr album) data"

text \<open>
  What the second loop maintains after the records \<open>pre\<close>: one entry per album key that
  occurred, holding the records of that album in order and the names of their artists.
\<close>

definition album_inv :: "(pyval \<Rightarrow> string) \<Rightarrow> song list \<Rightarrow> (string \<times> album_info) list \<Rightarrow> bool" where
  "album_inv py_str pre d \<longleftrightarrow>
     distinct (map fst d)
   \<and> fst ` set d = {al. album_songs pre al \<noteq> []}
   \<and> (\<forall>x\<in>set d. songs (snd x) = album_songs pre (fst x)
          \<and> set (artists (snd x)) =
              (\<Union>s\<in>set (album_songs pre (fst x)). set (album_artists py_str (artist_field s))))"

text \<open>
  The number of tracks on an album that are attributed to an artist, as the data model of
  the specification words the weight of an edge.
\<close>

definition pair_track_count :: "(pyval \<Rightarrow> string) \<Rightarrow> song list \<Rightarrow> string \<Rightarrow> string \<Rightarrow> nat" where
  "pair_track_count py_str data artist album =
     length (filter (\<lambda>s. artist \<in> set (album_artists py_str (artist_field s)))
               (album_songs data album))"

text \<open>A record with the three fields that \<^verbatim>\<open>get_graph_data\<close> reads.\<close>

definition track :: "string \<Rightarrow> string \<Rightarrow> int \<Rightarrow> song" where
  "track artist_names album_name popularity =
     [''artist_names'' \<mapsto> PStr artist_names,
      ''album_name'' \<mapsto> PStr album_name,
      ''popularity'' \<mapsto> PInt popularity]"

text \<open>
  An input with 51 artists: two records that name fifty artists on the album \<open>X\<close>, and
  one record of the artist \<open>Z\<close> on the album \<open>Y\<close>.
\<close>

definition fifty_artists :: string where
  "fifty_artists =
     ''a, b, c, d, e, f, g, h, i, j, k, l, m, n, o, p, q, r, s, t, u, v, w, x, y, '' @
     ''A, B, C, D, E, F, G, H, I, J, K, L, M, N, O, P, Q, R, S, T, U, V, W, X, Y''"

definition fifty_one_artists :: "song list" where
  "fifty_one_artists =
     [track fifty_artists ''X'' 10, track fifty_artists ''X'' 30, track ''Z'' ''Y'' 5]"

text \<open>
  The artist names to which the first loop attributes the records, in the order of the
  attributions; a name occurs once for every record filed under it.
\<close>

definition attributions :: "(pyval \<Rightarrow> string) \<Rightarrow> song list \<Rightarrow> string list" where
  "attributions py_str data = concat (map (\<lambda>s. graph_artists py_str (artist_field s)) data)"

text \<open>A group reduced to its key and its number of records.\<close>

definition group_count :: "string \<times> 'a list \<Rightarrow> string \<times> nat" where
  "group_count x = (fst x, length (snd x))"

text \<open>
  Records on which the body of \<^verbatim>\<open>get_graph_data\<close> cannot raise: the popularity is
  absent, a \<^verbatim>\<open>bool\<close> or an \<^verbatim>\<open>int\<close> of magnitude at most \<open>2 ^ 1023\<close>, and the album name
  is a string, falsy or absent.
\<close>

definition graph_ready :: "song \<Rightarrow> bool" where
  "graph_ready s \<longleftrightarrow>
     (case dict_get s ''popularity'' (PInt 0) of
        PBool b \<Rightarrow> True
      | PInt p \<Rightarrow> \<bar>p\<bar> \<le> 2 ^ 1023
      | _ \<Rightarrow> False)
   \<and> (case dict_get s ''album_name'' (PStr ''Unknown Album'') of
        PStr a \<Rightarrow> True
      | v \<Rightarrow> \<not> truthy v)"

text \<open>The two records of the example in the specification's list of testable properties.\<close>

definition two_tracks :: "song list" where
  "two_tracks = [track ''A, B'' ''X'' 10, track ''A'' ''X'' 30]"

text \<open>The popularity of a record is an integer between \<open>lo\<close> and \<open>hi\<close>, both included.\<close>

definition pop_in :: "int \<Rightarrow> int \<Rightarrow> song \<Rightarrow> bool" where
  "pop_in lo hi s = (case s ''popularity'' of Some (PInt p) \<Rightarrow> lo \<le> p \<and> p \<le> hi | _ \<Rightarrow> False)"

text \<open>The artists of \<^verbatim>\<open>artist_songs\<close> with the number of records filed under each.\<close>

definition artist_counts :: "(pyval \<Rightarrow> string) \<Rightarrow> song list \<Rightarrow> (string \<times> nat) list" where
  "artist_counts py_str data = map group_count (artist_songs py_str data)"

text \<open>The popularity of a record as an integer, when it is absent, a \<^verbatim>\<open>bool\<close> or an \<^verbatim>\<open>int\<close>.\<close>

definition int_pop :: "song \<Rightarrow> int" where
  "int_pop s =
     (case dict_get s ''popularity'' (PInt 0) of PBool b \<Rightarrow> of_bool b | PInt p \<Rightarrow> p | _ \<Rightarrow> 0)"

text \<open>A record with the seven fields that \<^verbatim>\<open>get_statistics\<close> reads.\<close>

definition liked :: "string \<Rightarrow> string \<Rightarrow> int \<Rightarrow> song" where
  "liked artist_names album_name popularity =
     [''artist_names'' \<mapsto> PStr artist_names,
      ''album_name'' \<mapsto> PStr album_name,
      ''popularity'' \<mapsto> PInt popularity,
      ''duration_ms'' \<mapsto> PInt 180000,
      ''duration_minutes'' \<mapsto> PFloat 3,
      ''explicit'' \<mapsto> PBool False,
      ''album_release_date'' \<mapsto> PStr ''2001-05-01'']"

text \<open>Line 42 of \<^verbatim>\<open>get_statistics\<close> on a record that has the field.\<close>

definition stat_names :: "song \<Rightarrow> pyval list" where
  "stat_names s =
     (case s ''artist_names'' of
        Some (PStr a) \<Rightarrow> map PStr (py_split '', '' a)
      | Some v \<Rightarrow> [v]
      | None \<Rightarrow> [])"

text \<open>
  The top-10 artist list as the specification words it: the names of the normalizer of
  section 4.1, ranked by their number of records with \<open>K = 10\<close>.
\<close>

definition spec_top_artists :: "(pyval \<Rightarrow> string) \<Rightarrow> song list \<Rightarrow> (pyval \<times> nat) list" where
  "spec_top_artists py_str data =
     map (\<lambda>x. (PStr (fst x), snd x)) (most_common 10 (artist_counts py_str data))"

section \<open>Strings and the normalizer\<close>

lemma dropWhile_snoc_keep: "\<not> P x \<Longrightarrow> \<exists>ys. dropWhile P (zs @ [x]) = ys @ [x]"
  by (induction zs) auto

lemma strip_idem: "strip (strip s) = strip s"
proof (cases "dropWhile isspace s")
  case Nil
  show ?thesis unfolding strip_def Nil by simp
next
  case (Cons x t)
  have nx: "\<not> isspace x"
    using Cons hd_dropWhile[of isspace s] by force
  obtain ys where ys: "dropWhile isspace (rev t @ [x]) = ys @ [x]"
    using dropWhile_snoc_keep[of isspace x "rev t"] nx by blast
  have s1: "strip s = x # rev ys"
    by (simp add: strip_def Cons ys)
  have "dropWhile isspace (ys @ [x]) = ys @ [x]"
    using ys dropWhile_idem[of isspace "rev t @ [x]"] by simp
  then show ?thesis
    by (simp add: s1) (simp add: strip_def nx)
qed

lemma strip_Nil_iff: "strip s = [] \<longleftrightarrow> (\<forall>c\<in>set s. isspace c)"
proof -
  have "strip s = [] \<longleftrightarrow> dropWhile isspace s = []"
  proof (cases "dropWhile isspace s")
    case Nil show ?thesis unfolding strip_def Nil by simp
  next
    case (Cons x t)
    have nx: "\<not> isspace x"
      using Cons hd_dropWhile[of isspace s] by force
    obtain ys where ys: "dropWhile isspace (rev t @ [x]) = ys @ [x]"
      using dropWhile_snoc_keep[of isspace x "rev t"] nx by blast
    show ?thesis by (simp add: strip_def Cons ys)
  qed
  then show ?thesis by simp
qed

lemma prefix_set: "prefix xs ys \<Longrightarrow> set xs \<subseteq> set ys"
  by (auto simp: prefix_def)

lemma contains_set: "contains sep s \<Longrightarrow> set sep \<subseteq> set s"
proof (induction s)
  case Nil then show ?case by simp
next
  case (Cons c cs)
  show ?case
  proof (cases "prefix sep (c # cs)")
    case True then show ?thesis by (rule prefix_set)
  next
    case False
    with Cons.prems have "contains sep cs" by simp
    then have "set sep \<subseteq> set cs" by (rule Cons.IH)
    then show ?thesis by auto
  qed
qed

lemma splitter_skip:
  "length pre = k \<Longrightarrow> splitter sep k cur (pre @ rest) = splitter sep 0 cur rest"
  by (induction pre arbitrary: k) auto

lemma splitter_match:
  assumes "sep \<noteq> []"
  shows "splitter sep 0 cur (sep @ rest) = rev cur # splitter sep 0 [] rest"
proof -
  obtain c cs where sep: "sep = c # cs" using assms by (cases sep) auto
  have "splitter sep 0 cur (sep @ rest) = rev cur # splitter sep (length sep - 1) [] (cs @ rest)"
    by (simp add: sep)
  also have "splitter sep (length sep - 1) [] (cs @ rest) = splitter sep 0 [] rest"
    by (rule splitter_skip) (simp add: sep)
  finally show ?thesis .
qed

lemma splitter_nonempty: "splitter sep k cur s \<noteq> []"
  by (induction sep k cur s rule: splitter.induct) auto

lemma join_Cons: "ts \<noteq> [] \<Longrightarrow> join sep (t # ts) = t @ sep @ join sep ts"
  by (cases ts) auto

lemma join_splitter:
  "sep \<noteq> [] \<Longrightarrow> join sep (splitter sep 0 cur s) = rev cur @ s"
proof (induction "length s" arbitrary: s cur rule: less_induct)
  case less
  show ?case
  proof (cases s)
    case Nil then show ?thesis by simp
  next
    case (Cons c cs)
    show ?thesis
    proof (cases "prefix sep s")
      case True
      then obtain rest where rest: "s = sep @ rest" by (auto simp: prefix_def)
      have "length rest < length s" using less.prems rest by simp
      then have "join sep (splitter sep 0 [] rest) = rest"
        using less.hyps[of rest "[]"] less.prems by simp
      then show ?thesis
        unfolding rest splitter_match[OF less.prems]
        by (simp add: join_Cons splitter_nonempty)
    next
      case False
      then have "splitter sep 0 cur s = splitter sep 0 (c # cur) cs"
        by (simp add: Cons)
      moreover have "join sep (splitter sep 0 (c # cur) cs) = rev (c # cur) @ cs"
        using less.hyps[of cs "c # cur"] less.prems Cons by simp
      ultimately show ?thesis by (simp add: Cons)
    qed
  qed
qed

lemma join_py_split: "sep \<noteq> [] \<Longrightarrow> join sep (py_split sep s) = s"
  by (simp add: py_split_def join_splitter)

lemma kept_artists_strip:
  "kept_artists (map strip ts) = filter (\<lambda>t. t \<noteq> []) (map strip ts)"
proof (induction ts)
  case Nil show ?case by (simp add: kept_artists_def)
next
  case (Cons t ts)
  then show ?case by (simp add: kept_artists_def strip_idem)
qed

lemma kept_artists_trimmed: "t \<in> set (kept_artists ts) \<Longrightarrow> t \<noteq> [] \<and> strip t = t"
  by (auto simp: kept_artists_def strip_idem)

lemma blank_no_delimiter:
  assumes "\<forall>c\<in>set s. isspace c" and "x \<in> set sep" and "\<not> isspace x"
  shows "\<not> contains sep s"
  using assms contains_set[of sep s] by auto

lemma split_artists_eq: "split_artists s = map strip
     (if contains '', '' s then py_split '', '' s
      else if contains ''; '' s then py_split ''; '' s else [s])"
  by (simp add: split_artists_def)

lemma kept_split_artists:
  "kept_artists (split_artists s) = filter (\<lambda>t. t \<noteq> []) (split_artists s)"
  unfolding split_artists_eq by (rule kept_artists_strip)

lemma graph_artists_str:
  "graph_artists py_str (PStr s) = filter (\<lambda>t. t \<noteq> []) (split_artists s)"
proof (cases "s = []")
  case True
  then show ?thesis by (simp add: graph_artists_def split_artists_def strip_def)
next
  case False
  then have "graph_artists py_str (PStr s) = kept_artists (split_artists s)"
    by (simp add: graph_artists_def)
  then show ?thesis by (simp only: kept_split_artists)
qed

lemma album_artists_str:
  "album_artists py_str (PStr s) = filter (\<lambda>t. t \<noteq> []) (split_artists s)"
proof -
  have "album_artists py_str (PStr s) = kept_artists (split_artists s)"
    by (simp add: album_artists_def split_artists_def kept_artists_def)
  then show ?thesis by (simp only: kept_split_artists)
qed

lemma not_space_comma: "\<not> isspace CHR '',''" and not_space_semicolon: "\<not> isspace CHR '';''"
  by (simp_all add: isspace_def)

lemma blank_artists:
  assumes "\<forall>c\<in>set s. isspace c"
  shows "graph_artists py_str (PStr s) = []" and "album_artists py_str (PStr s) = []"
proof -
  have a: "\<not> contains '', '' s"
    by (rule blank_no_delimiter[OF assms, of "CHR '',''"]) (simp_all add: not_space_comma)
  have b: "\<not> contains ''; '' s"
    by (rule blank_no_delimiter[OF assms, of "CHR '';''"]) (simp_all add: not_space_semicolon)
  have "strip s = []" using assms by (simp add: strip_Nil_iff)
  then have "filter (\<lambda>t. t \<noteq> []) (split_artists s) = []"
    by (simp add: split_artists_def a b)
  then show "graph_artists py_str (PStr s) = []" and "album_artists py_str (PStr s) = []"
    by (simp_all add: graph_artists_str album_artists_str)
qed


text \<open>
  C3. For every artist-names field that is a string: when it contains \<open>", "\<close> the names are
  the tokens of the split on \<open>", "\<close>; otherwise, when it contains \<open>"; "\<close>, the tokens of the
  split on \<open>"; "\<close>; otherwise the whole field. Every token is trimmed and empty tokens are
  discarded, so every name is non-empty and trimmed, and an empty or blank field yields no
  name. Both loops of \<^verbatim>\<open>get_graph_data\<close> compute the same names. Joining the tokens of a
  split with the delimiter gives the field back. The three examples of the specification
  evaluate as stated.
\<close>

theorem normalizer_delimiter_priority:
  "(contains '', '' s \<longrightarrow>
      graph_artists py_str (PStr s) = filter (\<lambda>t. t \<noteq> []) (map strip (py_split '', '' s)))
   \<and> (\<not> contains '', '' s \<and> contains ''; '' s \<longrightarrow>
      graph_artists py_str (PStr s) = filter (\<lambda>t. t \<noteq> []) (map strip (py_split ''; '' s)))
   \<and> (\<not> contains '', '' s \<and> \<not> contains ''; '' s \<longrightarrow>
      graph_artists py_str (PStr s) = filter (\<lambda>t. t \<noteq> []) [strip s])
   \<and> (\<forall>t\<in>set (graph_artists py_str (PStr s)). t \<noteq> [] \<and> strip t = t)
   \<and> ((\<forall>c\<in>set s. isspace c) \<longrightarrow> graph_artists py_str (PStr s) = [])
   \<and> album_artists py_str (PStr s) = graph_artists py_str (PStr s)
   \<and> join '', '' (py_split '', '' s) = s
   \<and> join ''; '' (py_split ''; '' s) = s
   \<and> graph_artists py_str (PStr ''Artist; Other'') = [''Artist'', ''Other'']
   \<and> graph_artists py_str (PStr ''Solo Name'') = [''Solo Name'']
   \<and> graph_artists py_str (PStr []) = []"
proof -
  have trimmed: "\<forall>t\<in>set (graph_artists py_str (PStr s)). t \<noteq> [] \<and> strip t = t"
  proof
    fix t assume "t \<in> set (graph_artists py_str (PStr s))"
    then have "t \<noteq> []" and "t \<in> set (split_artists s)"
      by (simp_all add: graph_artists_str)
    moreover from this(2) obtain u where "t = strip u"
      unfolding split_artists_eq by auto
    ultimately show "t \<noteq> [] \<and> strip t = t" by (simp add: strip_idem)
  qed
  have c1: "contains '', '' s \<longrightarrow>
      graph_artists py_str (PStr s) = filter (\<lambda>t. t \<noteq> []) (map strip (py_split '', '' s))"
    by (simp add: graph_artists_str split_artists_def)
  have c2: "\<not> contains '', '' s \<and> contains ''; '' s \<longrightarrow>
      graph_artists py_str (PStr s) = filter (\<lambda>t. t \<noteq> []) (map strip (py_split ''; '' s))"
    by (simp add: graph_artists_str split_artists_def)
  have c3: "\<not> contains '', '' s \<and> \<not> contains ''; '' s \<longrightarrow>
      graph_artists py_str (PStr s) = filter (\<lambda>t. t \<noteq> []) [strip s]"
    by (simp add: graph_artists_str split_artists_def)
  have blank: "(\<forall>c\<in>set s. isspace c) \<longrightarrow> graph_artists py_str (PStr s) = []"
    using blank_artists(1)[of s py_str] by blast
  have same: "album_artists py_str (PStr s) = graph_artists py_str (PStr s)"
    by (simp only: graph_artists_str album_artists_str)
  have j1: "join '', '' (py_split '', '' s) = s" by (rule join_py_split) simp
  have j2: "join ''; '' (py_split ''; '' s) = s" by (rule join_py_split) simp
  have e1: "graph_artists py_str (PStr ''Artist; Other'') = [''Artist'', ''Other'']"
    by code_simp
  have e2: "graph_artists py_str (PStr ''Solo Name'') = [''Solo Name'']"
    by code_simp
  have e3: "graph_artists py_str (PStr []) = []"
    by (simp add: graph_artists_def)
  show ?thesis
    using c1 c2 c3 trimmed blank same j1 j2 e1 e2 e3 by blast
qed

theorem normalizer_delimiter_priority_witness:
  "contains '', '' ''A,  B, , C; D''
   \<and> graph_artists (\<lambda>v. ''None'') (PStr ''A,  B, , C; D'') = [''A'', ''B'', ''C; D'']
   \<and> \<not> contains '', '' ''A ;B;  C; '' \<and> contains ''; '' ''A ;B;  C; ''
   \<and> graph_artists (\<lambda>v. ''None'') (PStr ''A ;B;  C; '') = [''A ;B'', ''C'']
   \<and> \<not> contains '', '' '' A,B '' \<and> \<not> contains ''; '' '' A,B ''
   \<and> graph_artists (\<lambda>v. ''None'') (PStr '' A,B '') = [''A,B'']
   \<and> list_all isspace ''   '' \<and> graph_artists (\<lambda>v. ''None'') (PStr ''   '') = []"
proof -
  have a: "contains '', '' ''A,  B, , C; D''" by code_simp
  have a': "filter (\<lambda>t. t \<noteq> []) (map strip (py_split '', '' ''A,  B, , C; D'')) = [''A'', ''B'', ''C; D'']"
    by code_simp
  have b: "\<not> contains '', '' ''A ;B;  C; '' \<and> contains ''; '' ''A ;B;  C; ''" by code_simp
  have b': "filter (\<lambda>t. t \<noteq> []) (map strip (py_split ''; '' ''A ;B;  C; '')) = [''A ;B'', ''C'']"
    by code_simp
  have c: "\<not> contains '', '' '' A,B '' \<and> \<not> contains ''; '' '' A,B ''" by code_simp
  have c': "filter (\<lambda>t. t \<noteq> []) [strip '' A,B ''] = [''A,B'']" by code_simp
  have d: "\<forall>c\<in>set ''   ''. isspace c" by (simp add: isspace_def)
  have d': "list_all isspace ''   ''" by (simp add: isspace_def)
  show ?thesis
    using normalizer_delimiter_priority[of "''A,  B, , C; D''" "\<lambda>v. ''None''"]
      normalizer_delimiter_priority[of "''A ;B;  C; ''" "\<lambda>v. ''None''"]
      normalizer_delimiter_priority[of "'' A,B ''" "\<lambda>v. ''None''"]
      normalizer_delimiter_priority[of "''   ''" "\<lambda>v. ''None''"]
      a a' b b' c c' d d'
    by metis
qed

section \<open>Structure of the graph builder's result\<close>

lemma add_artists_result:
  "add_artists xs g = Inr g' \<Longrightarrow>
     map node_shape (nodes g') = map node_shape (nodes g) @
       map (\<lambda>x. (''artist_'' @ fst x, ''artist'', max 5 (min (length (snd x) * 2) 30))) xs
   \<and> links g' = links g
   \<and> node_ids g' = node_ids g \<union> (\<lambda>x. ''artist_'' @ fst x) ` set xs"
proof (induction xs arbitrary: g)
  case Nil
  then show ?case by simp
next
  case (Cons x xs)
  obtain artist ss where x: "x = (artist, ss)" by (cases x)
  from Cons.prems obtain avg where
    step: "add_artists xs (g\<lparr>nodes := nodes g @ [artist_node artist ss avg],
              node_ids := insert (''artist_'' @ artist) (node_ids g)\<rparr>) = Inr g'"
    by (auto simp: x split: sum.splits if_splits)
  show ?case
    using Cons.IH[OF step] by (simp add: x artist_node_def node_shape_def)
qed

lemma add_links_result:
  assumes "\<And>a. ''artist_'' @ a \<in> node_ids g \<longleftrightarrow> a \<in> A"
  shows "add_links album_id n as g =
     g\<lparr>links := links g @
        map (\<lambda>a. \<lparr>link_source = ''artist_'' @ a, link_target = album_id, link_value = n\<rparr>)
          (filter (\<lambda>a. a \<in> A) as)\<rparr>"
  using assms
proof (induction as arbitrary: g)
  case Nil
  then show ?case by simp
next
  case (Cons a as)
  show ?case
  proof (cases "a \<in> A")
    case True
    let ?g = "g\<lparr>links := links g @
        [\<lparr>link_source = ''artist_'' @ a, link_target = album_id, link_value = n\<rparr>]\<rparr>"
    have "\<And>b. ''artist_'' @ b \<in> node_ids ?g \<longleftrightarrow> b \<in> A" using Cons.prems by simp
    from Cons.IH[OF this] True Cons.prems show ?thesis by simp
  next
    case False
    with Cons.IH[OF Cons.prems] Cons.prems show ?thesis by simp
  qed
qed

lemma artist_id_not_album_id: "''artist_'' @ a \<noteq> ''album_'' @ b"
  by simp

lemma add_albums_result:
  assumes "add_albums xs g = Inr g'"
    and "\<And>a. ''artist_'' @ a \<in> node_ids g \<longleftrightarrow> a \<in> A"
  shows "map node_shape (nodes g') = map node_shape (nodes g) @
           map (\<lambda>x. (''album_'' @ fst x, ''album'', max 5 (min (length (songs (snd x)) + 5) 25)))
             (filter (\<lambda>x. songs (snd x) \<noteq> []) xs)
   \<and> links g' = links g @
           concat (map (\<lambda>x. map (\<lambda>a. \<lparr>link_source = ''artist_'' @ a,
                                       link_target = ''album_'' @ fst x,
                                       link_value = length (songs (snd x))\<rparr>)
                              (filter (\<lambda>a. a \<in> A) (artists (snd x))))
                   (filter (\<lambda>x. songs (snd x) \<noteq> []) xs))"
  using assms
proof (induction xs arbitrary: g)
  case Nil
  then show ?case by simp
next
  case (Cons x xs)
  obtain album info where x: "x = (album, info)" by (cases x)
  show ?case
  proof (cases "songs info = []")
    case True
    with Cons.prems(1) have "add_albums xs g = Inr g'" by (simp add: x)
    from Cons.IH[OF this Cons.prems(2)] True show ?thesis by (simp add: x)
  next
    case False
    from Cons.prems(1) False obtain t where
      step: "add_albums xs
               (add_links (''album_'' @ album) (length (songs info)) (artists info)
                  (g\<lparr>nodes := nodes g @ [album_node album info t],
                     node_ids := insert (''album_'' @ album) (node_ids g)\<rparr>)) = Inr g'"
      by (auto simp: x split: sum.splits)
    let ?g1 = "g\<lparr>nodes := nodes g @ [album_node album info t],
                 node_ids := insert (''album_'' @ album) (node_ids g)\<rparr>"
    have inv1: "\<And>a. ''artist_'' @ a \<in> node_ids ?g1 \<longleftrightarrow> a \<in> A"
      using Cons.prems(2) by simp
    note al = add_links_result[of ?g1 A "''album_'' @ album" "length (songs info)" "artists info",
        OF inv1]
    let ?g2 = "add_links (''album_'' @ album) (length (songs info)) (artists info) ?g1"
    have inv2: "\<And>a. ''artist_'' @ a \<in> node_ids ?g2 \<longleftrightarrow> a \<in> A"
      unfolding al using Cons.prems(2) by simp
    from Cons.IH[OF step inv2] False show ?thesis
      unfolding al by (simp add: x album_node_def node_shape_def)
  qed
qed

lemma graph_body_result:
  assumes "graph_body py_str data = Inr g"
  shows "\<exists>d. album_data py_str data [] = Inr d
   \<and> map node_shape (nodes g) =
       map (\<lambda>x. (''artist_'' @ fst x, ''artist'', max 5 (min (length (snd x) * 2) 30)))
         (sorted_artists py_str data) @
       map (\<lambda>x. (''album_'' @ fst x, ''album'', max 5 (min (length (songs (snd x)) + 5) 25)))
         (filter (\<lambda>x. songs (snd x) \<noteq> []) (sorted_albums d))
   \<and> links g =
       concat (map (\<lambda>x. map (\<lambda>a. \<lparr>link_source = ''artist_'' @ a,
                                   link_target = ''album_'' @ fst x,
                                   link_value = length (songs (snd x))\<rparr>)
                          (filter (\<lambda>a. a \<in> fst ` set (sorted_artists py_str data))
                             (artists (snd x))))
               (filter (\<lambda>x. songs (snd x) \<noteq> []) (sorted_albums d)))"
proof -
  from assms obtain g0 d where
    a: "add_artists (sorted_artists py_str data) \<lparr>nodes = [], links = [], node_ids = {}\<rparr> = Inr g0"
    and d: "album_data py_str data [] = Inr d"
    and b: "add_albums (sorted_albums d) g0 = Inr g"
    by (auto simp: graph_body_def split: sum.splits)
  note ra = add_artists_result[OF a]
  have inv: "\<And>a. ''artist_'' @ a \<in> node_ids g0 \<longleftrightarrow> a \<in> fst ` set (sorted_artists py_str data)"
    using ra by (auto simp: image_iff)
  note rb = add_albums_result[OF b inv]
  show ?thesis
    using d ra rb by simp
qed


lemma get_graph_data_cases:
  "(\<exists>g. graph_body py_str data = Inr g \<and>
        get_graph_data py_str data =
          GraphOk (nodes g) (links g)
            \<lparr>total_nodes = length (nodes g),
             total_links = length (links g),
             stats_artists = length (filter (\<lambda>n. node_type n = ''artist'') (nodes g)),
             stats_albums = length (filter (\<lambda>n. node_type n = ''album'') (nodes g))\<rparr>)
   \<or> (\<exists>e. graph_body py_str data = Inl e \<and> is_Exception e
          \<and> get_graph_data py_str data = GraphError e [] [])
   \<or> (\<exists>e. graph_body py_str data = Inl e \<and> \<not> is_Exception e
          \<and> get_graph_data py_str data = Propagated e)"
  by (cases "graph_body py_str data") (simp_all add: get_graph_data_def)

lemma get_graph_data_OkD:
  "get_graph_data py_str data = GraphOk ns ls st \<Longrightarrow>
     \<exists>g. graph_body py_str data = Inr g \<and> ns = nodes g \<and> ls = links g"
  by (cases "graph_body py_str data") (simp_all add: get_graph_data_def split: if_splits)

section \<open>Album groups\<close>

lemma map_fst_album_update: "map fst (album_update album names song d) = map fst d"
  by (induction d) (auto simp: album_update_def)

lemma distinct_album_init:
  "distinct (map fst d) \<Longrightarrow> distinct (map fst (album_init album d))"
  by (auto simp: album_init_def)

lemma album_init_key: "album \<in> fst ` set (album_init album d)"
  by (auto simp: album_init_def)

lemma set_foldl_set_add: "set (foldl (\<lambda>as a. set_add a as) as names) = set as \<union> set names"
  by (induction names arbitrary: as) (auto simp: set_add_def)

lemma album_songs_snoc:
  "album_songs (pre @ [song]) al =
     album_songs pre al @ (if resolve_album song = Inr al then [song] else [])"
  by (simp add: album_songs_def)

lemma set_album_update:
  "set (album_update album names song d) =
     (\<lambda>x. if fst x = album
          then (fst x, \<lparr>artists = foldl (\<lambda>as a. set_add a as) (artists (snd x)) names,
                        songs = songs (snd x) @ [song]\<rparr>)
          else x) ` set d"
proof -
  have "(\<lambda>(k, info). if k = album
            then (k, \<lparr>artists = foldl (\<lambda>as a. set_add a as) (artists info) names,
                      songs = songs info @ [song]\<rparr>)
            else (k, info)) =
        (\<lambda>x. if fst x = album
          then (fst x, \<lparr>artists = foldl (\<lambda>as a. set_add a as) (artists (snd x)) names,
                        songs = songs (snd x) @ [song]\<rparr>)
          else x)"
    by (auto simp: fun_eq_iff)
  then show ?thesis by (simp add: album_update_def)
qed

lemma album_inv_step:
  assumes inv: "album_inv py_str pre d"
    and res: "resolve_album song = Inr album"
  shows "album_inv py_str (pre @ [song])
           (album_update album (album_artists py_str (artist_field song)) song
              (album_init album d))"
proof -
  let ?names = "album_artists py_str (artist_field song)"
  let ?d1 = "album_init album d"
  let ?d2 = "album_update album ?names song ?d1"
  let ?A = "\<lambda>p al. \<Union>s\<in>set (album_songs p al). set (album_artists py_str (artist_field s))"
  from inv have dist: "distinct (map fst d)"
    and keys: "fst ` set d = {al. album_songs pre al \<noteq> []}"
    and ent: "\<And>x. x \<in> set d \<Longrightarrow> songs (snd x) = album_songs pre (fst x)
                \<and> set (artists (snd x)) = ?A pre (fst x)"
    by (auto simp: album_inv_def)
  have ent1: "songs (snd x) = album_songs pre (fst x) \<and> set (artists (snd x)) = ?A pre (fst x)"
    if "x \<in> set ?d1" for x
  proof (cases "x \<in> set d")
    case True then show ?thesis by (rule ent)
  next
    case False
    with that have x: "x = (album, \<lparr>artists = [], songs = []\<rparr>)" and "album \<notin> fst ` set d"
      by (auto simp: album_init_def split: if_splits)
    then have "album_songs pre album = []" using keys by auto
    then show ?thesis by (simp add: x)
  qed
  have d2: "distinct (map fst ?d2)"
    by (simp add: map_fst_album_update distinct_album_init dist)
  have k2: "fst ` set ?d2 = {al. album_songs (pre @ [song]) al \<noteq> []}"
  proof -
    have "fst ` set ?d2 = set (map fst ?d2)" by simp
    also have "\<dots> = set (map fst ?d1)" by (simp only: map_fst_album_update)
    also have "\<dots> = insert album (fst ` set d)" by (auto simp: album_init_def)
    also have "\<dots> = {al. album_songs (pre @ [song]) al \<noteq> []}"
      using keys res by (auto simp: album_songs_snoc)
    finally show ?thesis .
  qed
  have e2: "songs (snd y) = album_songs (pre @ [song]) (fst y)
        \<and> set (artists (snd y)) = ?A (pre @ [song]) (fst y)" if "y \<in> set ?d2" for y
  proof -
    from that obtain x where x: "x \<in> set ?d1"
      and y: "y = (if fst x = album
          then (fst x, \<lparr>artists = foldl (\<lambda>as a. set_add a as) (artists (snd x)) ?names,
                        songs = songs (snd x) @ [song]\<rparr>)
          else x)"
      unfolding set_album_update by blast
    note e = ent1[OF x]
    show ?thesis
    proof (cases "fst x = album")
      case True
      then show ?thesis
        using e res by (simp add: y album_songs_snoc set_foldl_set_add Un_commute)
    next
      case False
      then show ?thesis
        using e res by (simp add: y album_songs_snoc)
    qed
  qed
  show ?thesis
    unfolding album_inv_def using d2 k2 e2 by blast
qed

lemma album_data_inv:
  assumes "album_data py_str data d0 = Inr d" and "album_inv py_str pre d0"
  shows "album_inv py_str (pre @ data) d"
  using assms
proof (induction data arbitrary: d0 pre)
  case Nil
  then show ?case by simp
next
  case (Cons song rest)
  from Cons.prems(1) obtain album where res: "resolve_album song = Inr album"
    and step: "album_data py_str rest
        (album_update album (album_artists py_str (artist_field song)) song
           (album_init album d0)) = Inr d"
    by (auto simp: artist_field_def split: sum.splits)
  from Cons.IH[OF step album_inv_step[OF Cons.prems(2) res]] show ?case by simp
qed

lemma album_inv_empty: "album_inv py_str [] []"
  by (simp add: album_inv_def album_songs_def)

lemma album_data_groups:
  assumes "album_data py_str data [] = Inr d"
  shows "album_inv py_str data d"
  using album_data_inv[OF assms album_inv_empty] by simp

lemma set_top_k: "set (top_k n key xs) \<subseteq> set xs"
  using set_take_subset[of n "sort_key (\<lambda>x. - int (key x)) xs"] by (simp add: top_k_def)

lemma album_inv_songs_nonempty:
  "album_inv py_str data d \<Longrightarrow> x \<in> set d \<Longrightarrow> songs (snd x) \<noteq> []"
  unfolding album_inv_def by (metis (mono_tags, lifting) image_eqI mem_Collect_eq)

lemma graph_ok_structure:
  assumes "get_graph_data py_str data = GraphOk ns ls st"
  shows "\<exists>d. album_data py_str data [] = Inr d \<and> album_inv py_str data d
   \<and> map node_shape ns =
       map (\<lambda>x. (''artist_'' @ fst x, ''artist'', max 5 (min (length (snd x) * 2) 30)))
         (sorted_artists py_str data) @
       map (\<lambda>x. (''album_'' @ fst x, ''album'', max 5 (min (length (songs (snd x)) + 5) 25)))
         (sorted_albums d)
   \<and> ls =
       concat (map (\<lambda>x. map (\<lambda>a. \<lparr>link_source = ''artist_'' @ a,
                                   link_target = ''album_'' @ fst x,
                                   link_value = length (songs (snd x))\<rparr>)
                          (filter (\<lambda>a. a \<in> fst ` set (sorted_artists py_str data))
                             (artists (snd x))))
               (sorted_albums d))"
proof -
  from get_graph_data_OkD[OF assms] obtain g where
    g: "graph_body py_str data = Inr g" and ns: "ns = nodes g" and ls: "ls = links g" by blast
  from graph_body_result[OF g] obtain d where d: "album_data py_str data [] = Inr d"
    and sh: "map node_shape (nodes g) =
       map (\<lambda>x. (''artist_'' @ fst x, ''artist'', max 5 (min (length (snd x) * 2) 30)))
         (sorted_artists py_str data) @
       map (\<lambda>x. (''album_'' @ fst x, ''album'', max 5 (min (length (songs (snd x)) + 5) 25)))
         (filter (\<lambda>x. songs (snd x) \<noteq> []) (sorted_albums d))"
    and lk: "links g =
       concat (map (\<lambda>x. map (\<lambda>a. \<lparr>link_source = ''artist_'' @ a,
                                   link_target = ''album_'' @ fst x,
                                   link_value = length (songs (snd x))\<rparr>)
                          (filter (\<lambda>a. a \<in> fst ` set (sorted_artists py_str data))
                             (artists (snd x))))
               (filter (\<lambda>x. songs (snd x) \<noteq> []) (sorted_albums d)))"
    by blast
  note inv = album_data_groups[OF d]
  have "\<forall>x\<in>set (sorted_albums d). songs (snd x) \<noteq> []"
    using album_inv_songs_nonempty[OF inv] set_top_k[of 40 "\<lambda>x. length (songs (snd x))" d]
    by (auto simp: sorted_albums_def)
  then have "filter (\<lambda>x. songs (snd x) \<noteq> []) (sorted_albums d) = sorted_albums d"
    by (simp add: filter_id_conv)
  with d inv sh lk show ?thesis by (auto simp: ns ls)
qed

text \<open>Every link comes from a retained album and a retained artist of its artist set.\<close>

lemma graph_ok_link:
  assumes "get_graph_data py_str data = GraphOk ns ls st" and "l \<in> set ls"
  shows "\<exists>d x a. album_data py_str data [] = Inr d \<and> album_inv py_str data d
      \<and> x \<in> set (sorted_albums d) \<and> x \<in> set d \<and> a \<in> set (artists (snd x))
      \<and> a \<in> fst ` set (sorted_artists py_str data)
      \<and> l = \<lparr>link_source = ''artist_'' @ a, link_target = ''album_'' @ fst x,
              link_value = length (songs (snd x))\<rparr>"
proof -
  from graph_ok_structure[OF assms(1)] obtain d where d: "album_data py_str data [] = Inr d"
    and inv: "album_inv py_str data d"
    and lk: "ls =
       concat (map (\<lambda>x. map (\<lambda>a. \<lparr>link_source = ''artist_'' @ a,
                                   link_target = ''album_'' @ fst x,
                                   link_value = length (songs (snd x))\<rparr>)
                          (filter (\<lambda>a. a \<in> fst ` set (sorted_artists py_str data))
                             (artists (snd x))))
               (sorted_albums d))"
    by blast
  from assms(2) obtain x a where "x \<in> set (sorted_albums d)" "a \<in> set (artists (snd x))"
    "a \<in> fst ` set (sorted_artists py_str data)"
    "l = \<lparr>link_source = ''artist_'' @ a, link_target = ''album_'' @ fst x,
              link_value = length (songs (snd x))\<rparr>"
    unfolding lk by auto
  moreover have "x \<in> set d"
    using calculation(1) set_top_k[of 40 "\<lambda>x. length (songs (snd x))" d]
    by (auto simp: sorted_albums_def)
  ultimately show ?thesis using d inv by blast
qed

lemma graph_ok_node_ids:
  assumes "get_graph_data py_str data = GraphOk ns ls st"
  shows "\<exists>d. album_data py_str data [] = Inr d \<and>
     node_id ` set ns = (\<lambda>x. ''artist_'' @ fst x) ` set (sorted_artists py_str data)
                      \<union> (\<lambda>x. ''album_'' @ fst x) ` set (sorted_albums d)"
proof -
  from graph_ok_structure[OF assms] obtain d where d: "album_data py_str data [] = Inr d"
    and sh: "map node_shape ns =
       map (\<lambda>x. (''artist_'' @ fst x, ''artist'', max 5 (min (length (snd x) * 2) 30)))
         (sorted_artists py_str data) @
       map (\<lambda>x. (''album_'' @ fst x, ''album'', max 5 (min (length (songs (snd x)) + 5) 25)))
         (sorted_albums d)"
    by blast
  have "map node_id ns = map fst (map node_shape ns)"
    by (simp add: node_shape_def)
  then have "map node_id ns = map (\<lambda>x. ''artist_'' @ fst x) (sorted_artists py_str data) @
       map (\<lambda>x. ''album_'' @ fst x) (sorted_albums d)"
    unfolding sh by simp
  then have "set (map node_id ns) = (\<lambda>x. ''artist_'' @ fst x) ` set (sorted_artists py_str data)
                      \<union> (\<lambda>x. ''album_'' @ fst x) ` set (sorted_albums d)"
    by simp
  with d show ?thesis by auto
qed

lemma graph_error_empty:
  "get_graph_data py_str data = GraphError e ns ls \<Longrightarrow> ns = [] \<and> ls = []"
  by (cases "graph_body py_str data") (simp_all add: get_graph_data_def split: if_splits)

lemma artist_songs_skip:
  assumes "graph_artists py_str (artist_field s) = []"
  shows "artist_songs py_str (pre @ [s] @ post) = artist_songs py_str (pre @ post)"
  using assms by (simp add: artist_songs_def artist_field_def)

lemma album_data_resolved:
  "album_data py_str data d0 = Inr d \<Longrightarrow> s \<in> set data \<Longrightarrow> \<exists>al. resolve_album s = Inr al"
proof (induction data arbitrary: d0)
  case Nil
  then show ?case by simp
next
  case (Cons t data)
  from Cons.prems(1) obtain album d1 where t: "resolve_album t = Inr album"
    and rest: "album_data py_str data d1 = Inr d"
    by (auto split: sum.splits)
  show ?case
  proof (cases "s = t")
    case True
    with t show ?thesis by blast
  next
    case False
    with Cons.prems(2) have "s \<in> set data" by simp
    from Cons.IH[OF rest this] show ?thesis .
  qed
qed

section \<open>Artist groups and their counts\<close>

lemma group_append_counts:
  "map group_count (group_append k v d) = counter_add (=) k (map group_count d)"
  by (induction d) (auto simp: group_count_def)

lemma foldl_group_append_counts:
  "map group_count (foldl (\<lambda>d a. group_append a v d) d names) =
     foldl (\<lambda>d x. counter_add (=) x d) (map group_count d) names"
  by (induction names arbitrary: d) (simp_all add: group_append_counts)

lemma artist_songs_fold_counts:
  "map group_count
     (foldl (\<lambda>d song. foldl (\<lambda>d artist. group_append artist song d) d
                (graph_artists py_str (dict_get song ''artist_names'' (PStr []))))
        d data) =
   foldl (\<lambda>d x. counter_add (=) x d) (map group_count d) (attributions py_str data)"
proof (induction data arbitrary: d)
  case Nil
  show ?case by (simp add: attributions_def)
next
  case (Cons s data)
  show ?case
    by (simp add: Cons.IH foldl_group_append_counts attributions_def artist_field_def)
qed

lemma artist_songs_counts:
  "map group_count (artist_songs py_str data) = counter (=) (attributions py_str data)"
  unfolding artist_songs_def counter_def using artist_songs_fold_counts[of py_str "[]" data]
  by simp

lemma insort_key_map:
  "map f (insort_key (\<lambda>x. k (f x)) x xs) = insort_key k (f x) (map f xs)"
  by (induction xs) auto

lemma sort_key_map: "map f (sort_key (\<lambda>x. k (f x)) xs) = sort_key k (map f xs)"
  by (induction xs) (simp_all add: insort_key_map)

lemma top_k_map: "map f (top_k n (\<lambda>x. key (f x)) xs) = top_k n key (map f xs)"
proof -
  have "map f (take n (sort_key (\<lambda>x. - int (key (f x))) xs)) =
      take n (map f (sort_key (\<lambda>x. - int (key (f x))) xs))"
    by (simp add: take_map)
  also have "map f (sort_key (\<lambda>x. - int (key (f x))) xs) =
      sort_key (\<lambda>y. - int (key y)) (map f xs)"
    by (rule sort_key_map)
  finally show ?thesis by (simp add: top_k_def)
qed

lemma sorted_artists_counts:
  "map group_count (sorted_artists py_str data) =
     most_common 50 (counter (=) (attributions py_str data))"
proof -
  have "map group_count (top_k 50 (\<lambda>x. snd (group_count x)) (artist_songs py_str data)) =
      top_k 50 snd (map group_count (artist_songs py_str data))"
    by (rule top_k_map)
  then show ?thesis
    by (simp add: sorted_artists_def most_common_def artist_songs_counts group_count_def)
qed

lemma set_group_append:
  "(\<Union>y\<in>set (group_append k v d). set (snd y)) = insert v (\<Union>y\<in>set d. set (snd y))"
proof (induction d)
  case Nil
  show ?case by simp
next
  case (Cons p d)
  obtain a b where p: "p = (a, b)" by (cases p)
  show ?case
  proof (cases "a = k")
    case True
    then show ?thesis by (simp add: p)
  next
    case False
    then show ?thesis by (simp add: p Cons.IH)
  qed
qed

lemma foldl_group_append_songs:
  "(\<Union>y\<in>set (foldl (\<lambda>d a. group_append a v d) d names). set (snd y))
     \<subseteq> insert v (\<Union>y\<in>set d. set (snd y))"
proof (induction names arbitrary: d)
  case Nil
  show ?case by auto
next
  case (Cons a names)
  from Cons.IH[of "group_append a v d"] show ?case
    by (simp add: set_group_append)
qed

lemma artist_songs_fold_songs:
  "(\<Union>y\<in>set (foldl (\<lambda>d song. foldl (\<lambda>d artist. group_append artist song d) d (names song))
        d data). set (snd y))
   \<subseteq> set data \<union> (\<Union>y\<in>set d. set (snd y))"
proof (induction data arbitrary: d)
  case Nil
  show ?case by auto
next
  case (Cons s data)
  let ?d1 = "foldl (\<lambda>d artist. group_append artist s d) d (names s)"
  have "(\<Union>y\<in>set (foldl (\<lambda>d song. foldl (\<lambda>d artist. group_append artist song d) d (names song))
        ?d1 data). set (snd y)) \<subseteq> set data \<union> (\<Union>y\<in>set ?d1. set (snd y))"
    by (rule Cons.IH)
  moreover have "(\<Union>y\<in>set ?d1. set (snd y)) \<subseteq> insert s (\<Union>y\<in>set d. set (snd y))"
    by (rule foldl_group_append_songs)
  ultimately show ?case by auto
qed

lemma artist_songs_subset:
  "x \<in> set (artist_songs py_str data) \<Longrightarrow> set (snd x) \<subseteq> set data"
  unfolding artist_songs_def
  using artist_songs_fold_songs[of "\<lambda>song. graph_artists py_str (dict_get song ''artist_names'' (PStr []))" "[]" data]
  by auto

lemma retained_names:
  "fst ` set (sorted_artists py_str data) =
     fst ` set (most_common 50 (counter (=) (attributions py_str data)))"
proof -
  have "fst ` set (sorted_artists py_str data) =
      fst ` set (map group_count (sorted_artists py_str data))"
    by (simp add: image_image group_count_def)
  then show ?thesis by (simp only: sorted_artists_counts)
qed

section \<open>Records on which the builder cannot raise\<close>

lemma ready_num:
  assumes "graph_ready s"
  shows "num_of (dict_get s ''popularity'' (PInt 0)) = Some (NInt (int_pop s))"
    and "\<bar>int_pop s\<bar> \<le> 2 ^ 1023"
  using assms
  by (auto simp: graph_ready_def int_pop_def split: pyval.splits)

lemma sum_get_ready:
  "\<forall>s\<in>set ss. graph_ready s \<Longrightarrow>
     sum_get ''popularity'' (NInt a) ss = Inr (NInt (a + sum_list (map int_pop ss)))"
proof (induction ss arbitrary: a)
  case Nil
  show ?case by simp
next
  case (Cons s ss)
  from Cons.prems have s: "graph_ready s" and rest: "\<forall>s\<in>set ss. graph_ready s" by simp_all
  show ?case
    using Cons.IH[OF rest, of "a + int_pop s"]
    by (simp add: ready_num(1)[OF s] py_add_def add.assoc)
qed

lemma abs_sum_list_bound:
  fixes f :: "'a \<Rightarrow> int"
  shows "\<forall>x\<in>set xs. \<bar>f x\<bar> \<le> B \<Longrightarrow> \<bar>sum_list (map f xs)\<bar> \<le> B * int (length xs)"
proof (induction xs)
  case Nil
  show ?case by simp
next
  case (Cons x xs)
  from Cons.prems have "\<bar>f x\<bar> \<le> B" and "\<bar>sum_list (map f xs)\<bar> \<le> B * int (length xs)"
    using Cons.IH by simp_all
  then have "\<bar>f x + sum_list (map f xs)\<bar> \<le> B + B * int (length xs)"
    by linarith
  then show ?case by (simp add: algebra_simps)
qed

lemma float_limit_gt: "(2::int) ^ 1023 < float_limit"
  by (simp add: float_limit_def)

lemma truediv_mean_ok:
  assumes "0 < n" and "\<bar>t\<bar> \<le> 2 ^ 1023 * int n"
  shows "py_truediv (NInt t) (NInt (int n)) = Inr (of_int t / of_int (int n))"
proof -
  have "2 ^ 1023 * int n < float_limit * int n"
    using float_limit_gt assms(1) by (simp add: mult_strict_right_mono)
  with assms(2) have "\<not> float_limit * \<bar>int n\<bar> \<le> \<bar>t\<bar>" by simp
  with assms(1) show ?thesis by (simp add: py_truediv_def)
qed

lemma mean_ready:
  assumes "\<forall>s\<in>set ss. graph_ready s" and "ss \<noteq> []"
  shows "\<exists>t avg. sum_get ''popularity'' (NInt 0) ss = Inr t
           \<and> py_truediv t (NInt (int (length ss))) = Inr avg"
proof -
  let ?t = "sum_list (map int_pop ss)"
  have s: "sum_get ''popularity'' (NInt 0) ss = Inr (NInt ?t)"
    using sum_get_ready[OF assms(1), of 0] by simp
  have "\<forall>x\<in>set ss. \<bar>int_pop x\<bar> \<le> 2 ^ 1023"
    using assms(1) ready_num(2) by blast
  then have "\<bar>?t\<bar> \<le> 2 ^ 1023 * int (length ss)" by (rule abs_sum_list_bound)
  moreover from assms(2) have "0 < length ss" by simp
  ultimately have "py_truediv (NInt ?t) (NInt (int (length ss))) =
      Inr (of_int ?t / of_int (int (length ss)))"
    by (rule truediv_mean_ok[rotated])
  with s show ?thesis by blast
qed

lemma add_artists_ok:
  "\<forall>x\<in>set xs. \<forall>s\<in>set (snd x). graph_ready s \<Longrightarrow> \<exists>g'. add_artists xs g = Inr g'"
proof (induction xs arbitrary: g)
  case Nil
  show ?case by simp
next
  case (Cons x xs)
  obtain artist ss where x: "x = (artist, ss)" by (cases x)
  from Cons.prems have rd: "\<forall>s\<in>set ss. graph_ready s" by (simp add: x)
  from Cons.prems have rest: "\<forall>x\<in>set xs. \<forall>s\<in>set (snd x). graph_ready s" by simp
  show ?case
  proof (cases "ss = []")
    case True
    with Cons.IH[OF rest] show ?thesis by (simp add: x)
  next
    case False
    from mean_ready[OF rd False] obtain t avg where
      "sum_get ''popularity'' (NInt 0) ss = Inr t"
      "py_truediv t (NInt (int (length ss))) = Inr avg"
      by blast
    with False Cons.IH[OF rest] show ?thesis by (simp add: x)
  qed
qed

lemma resolve_album_ok: "graph_ready s \<Longrightarrow> \<exists>album. resolve_album s = Inr album"
  by (auto simp: graph_ready_def resolve_album_def Let_def split: pyval.splits)

lemma album_data_ok:
  "\<forall>s\<in>set data. graph_ready s \<Longrightarrow> \<exists>d'. album_data py_str data d = Inr d'"
proof (induction data arbitrary: d)
  case Nil
  show ?case by simp
next
  case (Cons s data)
  from Cons.prems obtain album where "resolve_album s = Inr album"
    using resolve_album_ok[of s] by auto
  moreover from Cons.prems have "\<forall>s\<in>set data. graph_ready s" by simp
  ultimately show ?case using Cons.IH by simp
qed

lemma add_albums_ok:
  "\<forall>x\<in>set xs. \<forall>s\<in>set (songs (snd x)). graph_ready s \<Longrightarrow> \<exists>g'. add_albums xs g = Inr g'"
proof (induction xs arbitrary: g)
  case Nil
  show ?case by simp
next
  case (Cons x xs)
  obtain album info where x: "x = (album, info)" by (cases x)
  from Cons.prems have rd: "\<forall>s\<in>set (songs info). graph_ready s" by (simp add: x)
  from Cons.prems have rest: "\<forall>x\<in>set xs. \<forall>s\<in>set (songs (snd x)). graph_ready s" by simp
  show ?case
  proof (cases "songs info = []")
    case True
    with Cons.IH[OF rest] show ?thesis by (simp add: x)
  next
    case False
    from mean_ready[OF rd False] obtain t avg where
      "sum_get ''popularity'' (NInt 0) (songs info) = Inr t"
      "py_truediv t (NInt (int (length (songs info)))) = Inr avg"
      by blast
    with False Cons.IH[OF rest] show ?thesis by (simp add: x)
  qed
qed

lemma graph_body_ok:
  assumes "\<forall>s\<in>set data. graph_ready s"
  shows "\<exists>g. graph_body py_str data = Inr g"
proof -
  have "\<forall>x\<in>set (sorted_artists py_str data). \<forall>s\<in>set (snd x). graph_ready s"
    using assms artist_songs_subset[of _ py_str data]
      set_top_k[of 50 "\<lambda>x. length (snd x)" "artist_songs py_str data"]
    unfolding sorted_artists_def by blast
  from add_artists_ok[OF this] obtain g0 where
    a: "add_artists (sorted_artists py_str data) \<lparr>nodes = [], links = [], node_ids = {}\<rparr> = Inr g0"
    by blast
  from album_data_ok[OF assms] obtain d where d: "album_data py_str data [] = Inr d" by blast
  note inv = album_data_groups[OF d]
  have "\<forall>x\<in>set (sorted_albums d). \<forall>s\<in>set (songs (snd x)). graph_ready s"
  proof (intro ballI)
    fix x s assume x: "x \<in> set (sorted_albums d)" and s: "s \<in> set (songs (snd x))"
    from x have "x \<in> set d"
      using set_top_k[of 40 "\<lambda>x. length (songs (snd x))" d] by (auto simp: sorted_albums_def)
    with inv have "songs (snd x) = album_songs data (fst x)" by (auto simp: album_inv_def)
    with s have "s \<in> set data" by (simp add: album_songs_def)
    with assms show "graph_ready s" by blast
  qed
  from add_albums_ok[OF this] obtain g where "add_albums (sorted_albums d) g0 = Inr g" by blast
  with a d show ?thesis by (simp add: graph_body_def)
qed

lemma get_graph_data_ok:
  assumes "\<forall>s\<in>set data. graph_ready s"
  shows "\<exists>ns ls st. get_graph_data py_str data = GraphOk ns ls st"
  using graph_body_ok[OF assms, of py_str] get_graph_data_cases[of py_str data] by auto

lemma graph_ready_track: "\<bar>p\<bar> \<le> 2 ^ 1023 \<Longrightarrow> graph_ready (track a al p)"
  by (simp add: graph_ready_def track_def dict_get_def)

section \<open>The exceptions of the builder's body\<close>

lemma sum_get_errors: "sum_get k acc ss = Inl e \<Longrightarrow> e = TypeError \<or> e = OverflowError"
proof (induction ss arbitrary: acc)
  case Nil
  then show ?case by simp
next
  case (Cons s ss)
  then show ?case
    by (auto simp: py_add_def to_float_def split: option.splits sum.splits num.splits if_splits)
qed

lemma py_truediv_errors:
  "py_truediv x y = Inl e \<Longrightarrow> e = ZeroDivisionError \<or> e = OverflowError"
  by (auto simp: py_truediv_def to_float_def split: num.splits sum.splits if_splits)

lemma py_truediv_length_errors:
  "0 < n \<Longrightarrow> py_truediv x (NInt (int n)) = Inl e \<Longrightarrow> e = OverflowError"
  by (auto simp: py_truediv_def to_float_def split: num.splits sum.splits if_splits)

lemma add_artists_errors:
  "add_artists xs g = Inl e \<Longrightarrow> e = TypeError \<or> e = OverflowError"
proof (induction xs arbitrary: g)
  case Nil
  then show ?case by simp
next
  case (Cons x xs)
  obtain artist ss where x: "x = (artist, ss)" by (cases x)
  show ?case
  proof (cases "ss = []")
    case True
    with Cons.prems Cons.IH show ?thesis by (simp add: x)
  next
    case False
    then have n: "0 < length ss" by simp
    show ?thesis
    proof (cases "sum_get ''popularity'' (NInt 0) ss")
      case (Inl e')
      with Cons.prems False have "e = e'" by (simp add: x)
      with sum_get_errors[OF Inl] show ?thesis by simp
    next
      case (Inr t)
      show ?thesis
      proof (cases "py_truediv t (NInt (int (length ss)))")
        case (Inl e')
        with Cons.prems False Inr have "e = e'" by (simp add: x)
        with py_truediv_length_errors[OF n Inl] show ?thesis by simp
      next
        case (Inr avg)
        with Cons.prems False \<open>sum_get ''popularity'' (NInt 0) ss = Inr t\<close> Cons.IH
        show ?thesis by (simp add: x)
      qed
    qed
  qed
qed

lemma resolve_album_errors: "resolve_album s = Inl e \<Longrightarrow> e = AttributeError"
  by (auto simp: resolve_album_def Let_def split: pyval.splits if_splits)

lemma album_data_errors: "album_data py_str data d = Inl e \<Longrightarrow> e = AttributeError"
proof (induction data arbitrary: d)
  case Nil
  then show ?case by simp
next
  case (Cons s data)
  show ?case
  proof (cases "resolve_album s")
    case (Inl e')
    with Cons.prems have "e = e'" by simp
    with resolve_album_errors[OF Inl] show ?thesis by simp
  next
    case (Inr album)
    with Cons.prems Cons.IH show ?thesis by simp
  qed
qed

lemma add_albums_errors:
  "add_albums xs g = Inl e \<Longrightarrow> e = TypeError \<or> e = OverflowError"
proof (induction xs arbitrary: g)
  case Nil
  then show ?case by simp
next
  case (Cons x xs)
  obtain album info where x: "x = (album, info)" by (cases x)
  show ?case
  proof (cases "songs info = []")
    case True
    with Cons.prems Cons.IH show ?thesis by (simp add: x)
  next
    case False
    then have n: "0 < length (songs info)" by simp
    show ?thesis
    proof (cases "sum_get ''popularity'' (NInt 0) (songs info)")
      case (Inl e')
      with Cons.prems False have "e = e'" by (simp add: x)
      with sum_get_errors[OF Inl] show ?thesis by simp
    next
      case (Inr t)
      show ?thesis
      proof (cases "py_truediv t (NInt (int (length (songs info))))")
        case (Inl e')
        with Cons.prems False Inr have "e = e'" by (simp add: x)
        with py_truediv_length_errors[OF n Inl] show ?thesis by simp
      next
        case (Inr avg)
        with Cons.prems False \<open>sum_get ''popularity'' (NInt 0) (songs info) = Inr t\<close> Cons.IH
        show ?thesis by (simp add: x)
      qed
    qed
  qed
qed

lemma graph_body_errors:
  assumes "graph_body py_str data = Inl e"
  shows "e = AttributeError \<or> e = TypeError \<or> e = OverflowError"
proof (cases "add_artists (sorted_artists py_str data) \<lparr>nodes = [], links = [], node_ids = {}\<rparr>")
  case (Inl e')
  with assms have "e = e'" by (simp add: graph_body_def)
  with add_artists_errors[OF Inl] show ?thesis by simp
next
  case (Inr g0)
  show ?thesis
  proof (cases "album_data py_str data []")
    case (Inl e')
    with assms Inr have "e = e'" by (simp add: graph_body_def)
    with album_data_errors[OF Inl] show ?thesis by simp
  next
    case (Inr d)
    with assms \<open>add_artists (sorted_artists py_str data) \<lparr>nodes = [], links = [], node_ids = {}\<rparr> = Inr g0\<close>
    have "add_albums (sorted_albums d) g0 = Inl e" by (simp add: graph_body_def)
    from add_albums_errors[OF this] show ?thesis by simp
  qed
qed

lemma get_graph_data_not_propagated: "get_graph_data py_str data \<noteq> Propagated e"
proof
  assume "get_graph_data py_str data = Propagated e"
  with get_graph_data_cases[of py_str data] obtain e' where
    "graph_body py_str data = Inl e'" "\<not> is_Exception e'"
    by auto
  with graph_body_errors[of py_str data e'] show False by auto
qed

section \<open>Counters\<close>

lemma counter_add_map:
  assumes sym: "\<And>a b. eq a b \<Longrightarrow> eq b a"
    and trans: "\<And>a b c. eq a b \<Longrightarrow> eq b c \<Longrightarrow> eq a c"
    and pw: "sorted_wrt (\<lambda>a b. \<not> eq a b) ks"
  shows "counter_add eq x (map (\<lambda>k. (k, f k)) ks) =
     (if \<exists>k\<in>set ks. eq k x then map (\<lambda>k. (k, if eq k x then f k + 1 else f k)) ks
      else map (\<lambda>k. (k, f k)) ks @ [(x, 1)])"
  using pw
proof (induction ks)
  case Nil
  show ?case by simp
next
  case (Cons k ks)
  from Cons.prems have ne: "\<forall>k'\<in>set ks. \<not> eq k k'" and pw': "sorted_wrt (\<lambda>a b. \<not> eq a b) ks"
    by simp_all
  show ?case
  proof (cases "eq k x")
    case True
    have "\<not> eq k' x" if "k' \<in> set ks" for k'
    proof
      assume "eq k' x"
      then have "eq x k'" by (rule sym)
      with True have "eq k k'" by (rule trans)
      with ne that show False by blast
    qed
    then have "map (\<lambda>k. (k, if eq k x then f k + 1 else f k)) ks = map (\<lambda>k. (k, f k)) ks"
      by simp
    with True show ?thesis by simp
  next
    case False
    with Cons.IH[OF pw'] show ?thesis by simp
  qed
qed

lemma counter_snoc: "counter eq (xs @ [x]) = counter_add eq x (counter eq xs)"
  by (simp add: counter_def)

lemma counter_spec:
  assumes refl: "\<And>a. eq a a"
    and sym: "\<And>a b. eq a b \<Longrightarrow> eq b a"
    and trans: "\<And>a b c. eq a b \<Longrightarrow> eq b c \<Longrightarrow> eq a c"
  shows "counter eq xs = map (\<lambda>k. (k, length (filter (eq k) xs))) (map fst (counter eq xs))
     \<and> sorted_wrt (\<lambda>a b. \<not> eq a b) (map fst (counter eq xs))
     \<and> (\<forall>x\<in>set xs. \<exists>k\<in>set (map fst (counter eq xs)). eq k x)
     \<and> set (map fst (counter eq xs)) \<subseteq> set xs"
proof (induction xs rule: rev_induct)
  case Nil
  show ?case by (simp add: counter_def)
next
  case (snoc x xs)
  let ?ks = "map fst (counter eq xs)"
  let ?f = "\<lambda>k. length (filter (eq k) xs)"
  from snoc have c: "counter eq xs = map (\<lambda>k. (k, ?f k)) ?ks"
    and pw: "sorted_wrt (\<lambda>a b. \<not> eq a b) ?ks"
    and cov: "\<forall>y\<in>set xs. \<exists>k\<in>set ?ks. eq k y"
    and sub: "set ?ks \<subseteq> set xs"
    by blast+
  have step: "counter eq (xs @ [x]) =
     (if \<exists>k\<in>set ?ks. eq k x then map (\<lambda>k. (k, if eq k x then ?f k + 1 else ?f k)) ?ks
      else map (\<lambda>k. (k, ?f k)) ?ks @ [(x, 1)])"
    unfolding counter_snoc
    using counter_add_map[of eq ?ks x ?f, OF sym trans pw] c by simp
  show ?case
  proof (cases "\<exists>k\<in>set ?ks. eq k x")
    case True
    then have r: "counter eq (xs @ [x]) = map (\<lambda>k. (k, if eq k x then ?f k + 1 else ?f k)) ?ks"
      using step by simp
    have keys: "map fst (counter eq (xs @ [x])) = ?ks"
      unfolding r by (simp add: comp_def)
    have a: "counter eq (xs @ [x]) = map (\<lambda>k. (k, length (filter (eq k) (xs @ [x])))) ?ks"
      unfolding r by simp
    have b: "\<forall>y\<in>set (xs @ [x]). \<exists>k\<in>set ?ks. eq k y"
      using cov True by simp
    have c': "set ?ks \<subseteq> set (xs @ [x])"
      using sub by auto
    show ?thesis
      unfolding keys using a pw b c' by blast
  next
    case False
    then have r: "counter eq (xs @ [x]) = map (\<lambda>k. (k, ?f k)) ?ks @ [(x, 1)]"
      using step by simp
    have keys: "map fst (counter eq (xs @ [x])) = ?ks @ [x]"
      unfolding r by (simp add: comp_def)
    have nox: "filter (eq x) xs = []"
    proof (rule ccontr)
      assume "filter (eq x) xs \<noteq> []"
      then obtain y where y: "y \<in> set xs" "eq x y"
        by (auto simp: filter_empty_conv)
      from cov y(1) obtain k where k: "k \<in> set ?ks" "eq k y" by blast
      from y(2) have "eq y x" by (rule sym)
      with k(2) have "eq k x" by (rule trans)
      with False k(1) show False by blast
    qed
    have nk: "\<not> eq k x" if "k \<in> set ?ks" for k using False that by blast
    have "counter eq (xs @ [x]) = map (\<lambda>k. (k, length (filter (eq k) (xs @ [x])))) (?ks @ [x])"
      unfolding r using nk nox refl by simp
    moreover have "sorted_wrt (\<lambda>a b. \<not> eq a b) (?ks @ [x])"
      using pw nk by (simp add: sorted_wrt_append)
    moreover have "\<forall>y\<in>set (xs @ [x]). \<exists>k\<in>set (?ks @ [x]). eq k y"
      using cov refl by auto
    moreover have "set (?ks @ [x]) \<subseteq> set (xs @ [x])"
      using sub by auto
    ultimately show ?thesis unfolding keys by blast
  qed
qed

lemma py_eq_refl: "py_eq a a"
  by (cases a) (simp_all add: py_eq_def)

lemma py_eq_sym: "py_eq a b \<Longrightarrow> py_eq b a"
  by (cases a; cases b) (simp_all add: py_eq_def)

lemma py_eq_trans: "py_eq a b \<Longrightarrow> py_eq b c \<Longrightarrow> py_eq a c"
  by (cases a; cases b; cases c) (simp_all add: py_eq_def)

section \<open>Ranking and truncation\<close>

lemma count_list_insort_key: "count_list (insort_key f a xs) x = count_list (a # xs) x"
  by (induction xs) auto

lemma count_list_sort_key: "count_list (sort_key f xs) x = count_list xs x"
  by (induction xs) (simp_all add: count_list_insort_key)

lemma count_list_distinct: "distinct xs \<Longrightarrow> x \<in> set xs \<Longrightarrow> count_list xs x = 1"
  by (induction xs) auto

lemma sorted_desc_sort_key:
  "sorted_wrt (\<lambda>x y. key y \<le> key x) (sort_key (\<lambda>x. - int (key x)) items)"
proof -
  have "sorted (map (\<lambda>x. - int (key x)) (sort_key (\<lambda>x. - int (key x)) items))"
    by (rule sorted_sort_key)
  then show ?thesis by (simp add: sorted_map)
qed

lemma top_k_ranking:
  fixes key :: "'a \<Rightarrow> nat" and items :: "'a list"
  defines "S \<equiv> sort_key (\<lambda>x. - int (key x)) items"
  shows "length (top_k n key items) = min n (length items)"
    and "sorted_wrt (\<lambda>x y. key y \<le> key x) (top_k n key items)"
    and "count_list (top_k n key items @ drop n S) x = count_list items x"
    and "\<forall>x\<in>set (top_k n key items). \<forall>y\<in>set (drop n S). key y \<le> key x"
    and "filter (\<lambda>x. key x = c) (top_k n key items) @ filter (\<lambda>x. key x = c) (drop n S) =
           filter (\<lambda>x. key x = c) items"
proof -
  have t: "top_k n key items = take n S" by (simp add: top_k_def S_def)
  show "length (top_k n key items) = min n (length items)"
    by (simp add: t S_def min.commute)
  have s: "sorted_wrt (\<lambda>x y. key y \<le> key x) S"
    unfolding S_def by (rule sorted_desc_sort_key)
  then have "sorted_wrt (\<lambda>x y. key y \<le> key x) (take n S @ drop n S)" by simp
  then show "\<forall>x\<in>set (top_k n key items). \<forall>y\<in>set (drop n S). key y \<le> key x"
    unfolding t sorted_wrt_append by blast
  from s show "sorted_wrt (\<lambda>x y. key y \<le> key x) (top_k n key items)"
    unfolding t by (rule sorted_wrt_take)
  show "count_list (top_k n key items @ drop n S) x = count_list items x"
    unfolding t by (simp add: S_def count_list_sort_key)
  have "filter (\<lambda>x. key x = c) (take n S) @ filter (\<lambda>x. key x = c) (drop n S) =
      filter (\<lambda>x. key x = c) S"
    by (simp add: filter_append[symmetric] del: filter_append)
  also have "\<dots> = filter (\<lambda>y. - int (key y) = - int c) S" by simp
  also have "\<dots> = filter (\<lambda>y. - int (key y) = - int c) items"
    unfolding S_def by (rule sort_key_stable)
  also have "\<dots> = filter (\<lambda>x. key x = c) items" by simp
  finally show "filter (\<lambda>x. key x = c) (top_k n key items) @ filter (\<lambda>x. key x = c) (drop n S) =
           filter (\<lambda>x. key x = c) items"
    unfolding t .
qed

lemma distinct_sorted_wrt_neq: "sorted_wrt (\<lambda>a b. a \<noteq> b) xs = distinct xs"
  by (induction xs) auto

lemma artist_counts_counter:
  "artist_counts py_str data = counter (=) (attributions py_str data)"
  by (simp add: artist_counts_def artist_songs_counts)

lemma artist_counts_spec:
  "artist_counts py_str data =
     map (\<lambda>k. (k, count_list (attributions py_str data) k)) (map fst (artist_counts py_str data))"
  and distinct_artist_counts: "distinct (map fst (artist_counts py_str data))"
  and set_artist_counts: "set (map fst (artist_counts py_str data)) = set (attributions py_str data)"
proof -
  let ?xs = "attributions py_str data"
  have c: "counter (=) ?xs = map (\<lambda>k. (k, length (filter ((=) k) ?xs))) (map fst (counter (=) ?xs))
     \<and> sorted_wrt (\<lambda>a b. \<not> a = b) (map fst (counter (=) ?xs))
     \<and> (\<forall>x\<in>set ?xs. \<exists>k\<in>set (map fst (counter (=) ?xs)). k = x)
     \<and> set (map fst (counter (=) ?xs)) \<subseteq> set ?xs"
    by (rule counter_spec) auto
  have l: "length (filter ((=) k) ?xs) = count_list ?xs k" for k
    by (simp add: count_list_eq_length_filter)
  from c show "artist_counts py_str data =
     map (\<lambda>k. (k, count_list ?xs k)) (map fst (artist_counts py_str data))"
    unfolding artist_counts_counter l by blast
  from c show "distinct (map fst (artist_counts py_str data))"
    unfolding artist_counts_counter distinct_sorted_wrt_neq[symmetric] by blast
  from c show "set (map fst (artist_counts py_str data)) = set ?xs"
    unfolding artist_counts_counter by blast
qed

lemma retained_counts:
  "map group_count (sorted_artists py_str data) =
     take 50 (sort_key (\<lambda>y. - int (snd y)) (artist_counts py_str data))"
  by (simp add: sorted_artists_counts most_common_def top_k_def artist_counts_counter)

lemma many_greater_not_retained:
  assumes mem: "(a, c) \<in> set (artist_counts py_str data)"
    and many: "50 \<le> length (filter (\<lambda>y. c < snd y) (artist_counts py_str data))"
  shows "a \<notin> fst ` set (sorted_artists py_str data)"
proof
  let ?C = "artist_counts py_str data"
  let ?f = "\<lambda>y :: string \<times> nat. - int (snd y)"
  let ?S = "sort_key ?f ?C"
  assume "a \<in> fst ` set (sorted_artists py_str data)"
  then have "a \<in> fst ` set (map group_count (sorted_artists py_str data))"
    by (force simp: group_count_def)
  then obtain c' where c': "(a, c') \<in> set (take 50 ?S)"
    unfolding retained_counts by auto
  then have m': "(a, c') \<in> set ?C" using set_take_subset[of 50 ?S] by auto
  from distinct_artist_counts[of py_str data] m' mem have "c' = c"
    by (rule eq_key_imp_eq_value)
  with c' have "(a, c) \<in> set (take 50 ?S)" by simp
  then obtain i where i: "i < length (take 50 ?S)" and ti: "take 50 ?S ! i = (a, c)"
    by (auto simp: in_set_conv_nth)
  then have i50: "i < 50" and iS: "i < length ?S" and Si: "?S ! i = (a, c)" by simp_all
  have srt: "sorted (map ?f ?S)" by (rule sorted_sort_key)
  have low: "\<not> c < snd y" if "y \<in> set (drop i ?S)" for y
  proof -
    from that obtain j where j: "j < length (drop i ?S)" and y: "drop i ?S ! j = y"
      by (auto simp: in_set_conv_nth)
    then have ij: "i + j < length ?S" and yS: "?S ! (i + j) = y" by simp_all
    from srt have "map ?f ?S ! i \<le> map ?f ?S ! (i + j)"
      by (rule sorted_nth_mono) (use ij in simp_all)
    with ij iS have "?f (?S ! i) \<le> ?f (?S ! (i + j))" by simp
    then show ?thesis by (simp add: Si yS)
  qed
  have "length (filter (\<lambda>y. c < snd y) ?C) = length (filter (\<lambda>y. c < snd y) ?S)"
    by (simp add: filter_sort)
  also have "\<dots> = length (filter (\<lambda>y. c < snd y) (take i ?S @ drop i ?S))" by simp
  also have "\<dots> = length (filter (\<lambda>y. c < snd y) (take i ?S))"
    unfolding filter_append using low by (simp add: filter_empty_conv)
  also have "\<dots> \<le> length (take i ?S)" by (rule length_filter_le)
  also have "\<dots> \<le> i" by simp
  finally show False using many i50 by simp
qed

lemma untied_low_many_greater:
  assumes mem: "(a, c) \<in> set (artist_counts py_str data)"
    and untied: "\<forall>y\<in>set (artist_counts py_str data). snd y = c \<longrightarrow> y = (a, c)"
    and low: "length (filter (\<lambda>y. snd y < c) (artist_counts py_str data)) + 50
                < length (artist_counts py_str data)"
  shows "50 \<le> length (filter (\<lambda>y. c < snd y) (artist_counts py_str data))"
proof -
  let ?C = "artist_counts py_str data"
  have d: "distinct ?C" using distinct_artist_counts[of py_str data] by (simp add: distinct_map)
  have "filter (\<lambda>y. snd y = c) ?C = filter ((=) (a, c)) ?C"
    by (rule filter_cong) (use untied in auto)
  also have "length \<dots> = count_list ?C (a, c)"
    by (simp only: count_list_eq_length_filter)
  also have "\<dots> = 1" using d mem
    by (simp add: count_list_distinct)
  finally have e: "length (filter (\<lambda>y. snd y = c) ?C) = 1" .
  have "length ?C = length (filter (\<lambda>y. snd y < c) ?C) + length (filter (\<lambda>y. \<not> snd y < c) ?C)"
    by (simp add: sum_length_filter_compl)
  also have "length (filter (\<lambda>y. \<not> snd y < c) ?C) =
      length (filter (\<lambda>y. snd y = c) (filter (\<lambda>y. \<not> snd y < c) ?C))
    + length (filter (\<lambda>y. \<not> snd y = c) (filter (\<lambda>y. \<not> snd y < c) ?C))"
    by (simp only: sum_length_filter_compl)
  also have "filter (\<lambda>y. snd y = c) (filter (\<lambda>y. \<not> snd y < c) ?C) = filter (\<lambda>y. snd y = c) ?C"
    unfolding filter_filter by (rule filter_cong) auto
  also have "filter (\<lambda>y. \<not> snd y = c) (filter (\<lambda>y. \<not> snd y < c) ?C) = filter (\<lambda>y. c < snd y) ?C"
    unfolding filter_filter by (rule filter_cong) auto
  finally show ?thesis using low e by simp
qed

lemma artist_node_count:
  assumes "get_graph_data py_str data = GraphOk ns ls st"
  shows "length (filter (\<lambda>n. node_type n = ''artist'') ns) = min 50 (length (artist_counts py_str data))"
    and "stats_artists st = min 50 (length (artist_counts py_str data))"
proof -
  from graph_ok_structure[OF assms] obtain d where
    sh: "map node_shape ns =
       map (\<lambda>x. (''artist_'' @ fst x, ''artist'', max 5 (min (length (snd x) * 2) 30)))
         (sorted_artists py_str data) @
       map (\<lambda>x. (''album_'' @ fst x, ''album'', max 5 (min (length (songs (snd x)) + 5) 25)))
         (sorted_albums d)"
    by blast
  have "length (filter (\<lambda>n. node_type n = ''artist'') ns) =
      length (filter (\<lambda>t. fst (snd t) = ''artist'') (map node_shape ns))"
    by (simp add: filter_map comp_def node_shape_def)
  also have "\<dots> = length (sorted_artists py_str data)"
    unfolding sh by (simp add: filter_map comp_def)
  also have "\<dots> = min 50 (length (artist_counts py_str data))"
    by (simp add: sorted_artists_def artist_counts_def top_k_ranking(1) )
  finally show n: "length (filter (\<lambda>n. node_type n = ''artist'') ns) =
      min 50 (length (artist_counts py_str data))" .
  from assms have "stats_artists st = length (filter (\<lambda>n. node_type n = ''artist'') ns)"
    by (cases "graph_body py_str data") (auto simp: get_graph_data_def split: if_splits)
  with n show "stats_artists st = min 50 (length (artist_counts py_str data))" by simp
qed

lemma not_retained_excluded:
  assumes "a \<notin> fst ` set (sorted_artists py_str data)"
  shows "''artist_'' @ a \<notin> node_id ` set (response_nodes (get_graph_data py_str data))
       \<and> ''artist_'' @ a \<notin> link_source ` set (response_links (get_graph_data py_str data))"
proof (cases "get_graph_data py_str data")
  case (GraphError e ns ls)
  from graph_error_empty[OF this] show ?thesis by (simp add: GraphError)
next
  case (Propagated e)
  then show ?thesis by simp
next
  case (GraphOk ns ls st)
  from graph_ok_node_ids[OF GraphOk] obtain d where
    ids: "node_id ` set ns = (\<lambda>x. ''artist_'' @ fst x) ` set (sorted_artists py_str data)
                      \<union> (\<lambda>x. ''album_'' @ fst x) ` set (sorted_albums d)"
    by blast
  have n: "''artist_'' @ a \<notin> (\<lambda>x. ''artist_'' @ fst x) ` set (sorted_artists py_str data)"
    using assms by auto
  have "''artist_'' @ a \<notin> (\<lambda>x. ''album_'' @ fst x) ` set (sorted_albums d)"
    by auto
  with n have a: "''artist_'' @ a \<notin> node_id ` set ns" unfolding ids by blast
  have b: "''artist_'' @ a \<notin> link_source ` set ls"
  proof
    assume "''artist_'' @ a \<in> link_source ` set ls"
    then obtain l where l: "l \<in> set ls" and s: "link_source l = ''artist_'' @ a" by auto
    from graph_ok_link[OF GraphOk l] obtain x :: "string \<times> album_info" and b where
      "b \<in> fst ` set (sorted_artists py_str data)"
      "l = \<lparr>link_source = ''artist_'' @ b, link_target = ''album_'' @ fst x,
              link_value = length (songs (snd x))\<rparr>"
      by blast
    with s assms show False by simp
  qed
  from a b show ?thesis unfolding GraphOk response_nodes.simps response_links.simps by blast
qed

section \<open>Statistics: the popularity histogram\<close>

lemma pop_in_PInt: "pop_in lo hi s \<Longrightarrow> \<exists>p. s ''popularity'' = Some (PInt p) \<and> lo \<le> p \<and> p \<le> hi"
  by (auto simp: pop_in_def split: option.splits pyval.splits)

lemma popularity_ranges_counts:
  assumes "\<forall>s\<in>set data. pop_in 0 100 s"
  shows "popularity_ranges data
           [(''0-20'', a), (''21-40'', b), (''41-60'', c), (''61-80'', d), (''81-100'', e)] =
         Inr [(''0-20'', a + length (filter (pop_in 0 20) data)),
              (''21-40'', b + length (filter (pop_in 21 40) data)),
              (''41-60'', c + length (filter (pop_in 41 60) data)),
              (''61-80'', d + length (filter (pop_in 61 80) data)),
              (''81-100'', e + length (filter (pop_in 81 100) data))]"
  using assms
proof (induction data arbitrary: a b c d e)
  case Nil
  show ?case by simp
next
  case (Cons s data)
  from Cons.prems obtain p where p: "s ''popularity'' = Some (PInt p)" and r: "0 \<le> p" "p \<le> 100"
    using pop_in_PInt[of 0 100 s] by auto
  from Cons.prems have rest: "\<forall>s\<in>set data. pop_in 0 100 s" by simp
  note IH = Cons.IH[OF rest]
  consider "p \<le> 20" | "20 < p" "p \<le> 40" | "40 < p" "p \<le> 60" | "60 < p" "p \<le> 80" | "80 < p"
    by linarith
  then show ?case
  proof cases
    case 1
    then show ?thesis using r
      by (simp add: dict_item_def p popularity_range_def bump_def IH pop_in_def)
  next
    case 2
    then show ?thesis using r
      by (simp add: dict_item_def p popularity_range_def bump_def IH pop_in_def)
  next
    case 3
    then show ?thesis using r
      by (simp add: dict_item_def p popularity_range_def bump_def IH pop_in_def)
  next
    case 4
    then show ?thesis using r
      by (simp add: dict_item_def p popularity_range_def bump_def IH pop_in_def)
  next
    case 5
    then show ?thesis using r
      by (simp add: dict_item_def p popularity_range_def bump_def IH pop_in_def)
  qed
qed

lemma one_bucket:
  assumes "pop_in 0 100 s"
  shows "length (filter (\<lambda>(lo, hi). pop_in lo hi s)
           [(0, 20), (21, 40), (41, 60), (61, 80), (81, 100)]) = 1"
proof -
  from pop_in_PInt[OF assms] obtain p where p: "s ''popularity'' = Some (PInt p)"
    and r: "0 \<le> p" "p \<le> 100" by auto
  consider "p \<le> 20" | "20 < p" "p \<le> 40" | "40 < p" "p \<le> 60" | "60 < p" "p \<le> 80" | "80 < p"
    by linarith
  then show ?thesis using r by cases (simp_all add: pop_in_def p)
qed

lemma bucket_total:
  assumes "\<forall>s\<in>set data. pop_in 0 100 s"
  shows "length (filter (pop_in 0 20) data) + length (filter (pop_in 21 40) data)
       + length (filter (pop_in 41 60) data) + length (filter (pop_in 61 80) data)
       + length (filter (pop_in 81 100) data) = length data"
  using assms
proof (induction data)
  case Nil
  show ?case by simp
next
  case (Cons s data)
  from Cons.prems obtain p where p: "s ''popularity'' = Some (PInt p)" and r: "0 \<le> p" "p \<le> 100"
    using pop_in_PInt[of 0 100 s] by auto
  from Cons.prems have "\<forall>s\<in>set data. pop_in 0 100 s" by simp
  note IH = Cons.IH[OF this]
  consider "p \<le> 20" | "20 < p" "p \<le> 40" | "40 < p" "p \<le> 60" | "60 < p" "p \<le> 80" | "80 < p"
    by linarith
  then show ?case using r IH by cases (simp_all add: pop_in_def p)
qed

lemma get_statistics_popularity:
  "get_statistics data = Inr st \<Longrightarrow>
     popularity_ranges data popularity_init = Inr (popularity_distribution st)
   \<and> total_songs st = length data"
  by (auto simp: get_statistics_def and_then_def split: sum.splits)

section \<open>Statistics: the top artists\<close>

lemma song_artists_stat_names: "song_artists s = Inr xs \<Longrightarrow> xs = stat_names s"
  by (auto simp: song_artists_def stat_names_def dict_item_def split: option.splits pyval.splits)

lemma collect_song_artists:
  "collect song_artists data = Inr names \<Longrightarrow> names = concat (map stat_names data)"
proof (induction data arbitrary: names)
  case Nil
  then show ?case by simp
next
  case (Cons s data)
  from Cons.prems obtain xs ys where xs: "song_artists s = Inr xs"
    and ys: "collect song_artists data = Inr ys" and n: "names = xs @ ys"
    by (auto split: sum.splits)
  from song_artists_stat_names[OF xs] Cons.IH[OF ys] n show ?case by simp
qed

lemma get_statistics_top_artists:
  "get_statistics data = Inr st \<Longrightarrow>
     \<exists>names. collect song_artists data = Inr names
       \<and> top_artists st = most_common 10 (counter py_eq names)
       \<and> total_artists st = length (counter py_eq names)"
  by (auto simp: get_statistics_def and_then_def split: sum.splits if_splits)

lemma counter_py_eq_count:
  assumes "x \<in> set (counter py_eq xs)"
  shows "snd x = length (filter (py_eq (fst x)) xs)"
proof -
  have "counter py_eq xs =
      map (\<lambda>k. (k, length (filter (py_eq k) xs))) (map fst (counter py_eq xs))"
    using counter_spec[of py_eq xs] py_eq_refl py_eq_sym py_eq_trans by blast
  then have "x \<in> set (map (\<lambda>k. (k, length (filter (py_eq k) xs))) (map fst (counter py_eq xs)))"
    using assms by simp
  then show ?thesis by auto
qed

lemma most_common_rest:
  assumes "x \<in> set (most_common n d)" and "y \<in> set d" and "y \<notin> set (most_common n d)"
  shows "snd y \<le> snd x"
proof -
  let ?S = "sort_key (\<lambda>x. - int (snd x)) d"
  have "set d = set (take n ?S @ drop n ?S)" by simp
  with assms(2,3) have "y \<in> set (drop n ?S)"
    by (auto simp: most_common_def top_k_def simp del: append_take_drop_id)
  with top_k_ranking(4)[where n = n and key = snd and items = d] assms(1)
  show ?thesis by (auto simp: most_common_def)
qed

section \<open>The claims about the graph builder\<close>

text \<open>
  C5. No exception leaves \<^verbatim>\<open>get_graph_data\<close>, whatever the records are. The body of the
  \<^verbatim>\<open>try\<close> block raises nothing but \<^verbatim>\<open>AttributeError\<close> (an album name that is neither a
  string nor falsy), \<^verbatim>\<open>TypeError\<close> (a popularity that is not a number) and
  \<^verbatim>\<open>OverflowError\<close> (a popularity beyond the range of a float); each is a subclass of
  \<^verbatim>\<open>Exception\<close>, so the handler catches it and answers with the exception and two empty
  lists. When the body finishes the answer is the payload of nodes, links and counts. A
  missing field never raises: on records whose popularity is absent, a \<^verbatim>\<open>bool\<close> or an
  \<^verbatim>\<open>int\<close> within \<open>2 ^ 1023\<close> and whose album name is absent, falsy or a string, the answer is
  a payload. The record without any field gives the node of the unknown album; an album
  name 5, a popularity \<open>'high'\<close> and a popularity \<open>2 ^ 1024\<close> give the structured error.
\<close>

theorem graph_data_structured_error:
  "(\<forall>e. get_graph_data py_str data \<noteq> Propagated e)
   \<and> (\<forall>e. graph_body py_str data = Inl e \<longrightarrow>
         (e = AttributeError \<or> e = TypeError \<or> e = OverflowError)
       \<and> get_graph_data py_str data = GraphError e [] [])
   \<and> (\<forall>g. graph_body py_str data = Inr g \<longrightarrow>
         get_graph_data py_str data =
           GraphOk (nodes g) (links g)
             \<lparr>total_nodes = length (nodes g),
              total_links = length (links g),
              stats_artists = length (filter (\<lambda>n. node_type n = ''artist'') (nodes g)),
              stats_albums = length (filter (\<lambda>n. node_type n = ''album'') (nodes g))\<rparr>)
   \<and> ((\<forall>s\<in>set data. graph_ready s) \<longrightarrow>
         (\<exists>ns ls st. get_graph_data py_str data = GraphOk ns ls st))
   \<and> get_graph_data py_str [Map.empty] =
       GraphOk [\<lparr>node_id = ''album_Unknown Album'', node_name = ''Unknown Album'',
                 node_type = ''album'', node_size = 6, node_popularity = 0\<rparr>] []
         \<lparr>total_nodes = 1, total_links = 0, stats_artists = 0, stats_albums = 1\<rparr>
   \<and> get_graph_data py_str [[''album_name'' \<mapsto> PInt 5]] = GraphError AttributeError [] []
   \<and> get_graph_data py_str [[''popularity'' \<mapsto> PStr ''high'']] = GraphError TypeError [] []
   \<and> get_graph_data py_str [[''popularity'' \<mapsto> PInt (2 ^ 1024)]] = GraphError OverflowError [] []"
proof -
  have p: "\<forall>e. get_graph_data py_str data \<noteq> Propagated e"
    using get_graph_data_not_propagated by blast
  have l: "(e = AttributeError \<or> e = TypeError \<or> e = OverflowError)
       \<and> get_graph_data py_str data = GraphError e [] []"
    if "graph_body py_str data = Inl e" for e
  proof -
    from graph_body_errors[OF that]
    have k: "e = AttributeError \<or> e = TypeError \<or> e = OverflowError" .
    then have "is_Exception e" by auto
    with that k show ?thesis by (simp add: get_graph_data_def)
  qed
  have r: "get_graph_data py_str data =
           GraphOk (nodes g) (links g)
             \<lparr>total_nodes = length (nodes g),
              total_links = length (links g),
              stats_artists = length (filter (\<lambda>n. node_type n = ''artist'') (nodes g)),
              stats_albums = length (filter (\<lambda>n. node_type n = ''album'') (nodes g))\<rparr>"
    if "graph_body py_str data = Inr g" for g
    using that by (simp add: get_graph_data_def)
  have ok: "(\<forall>s\<in>set data. graph_ready s) \<longrightarrow>
         (\<exists>ns ls st. get_graph_data py_str data = GraphOk ns ls st)"
    using get_graph_data_ok[of data py_str] by blast
  have a: "get_graph_data py_str [Map.empty] =
       GraphOk [\<lparr>node_id = ''album_Unknown Album'', node_name = ''Unknown Album'',
                 node_type = ''album'', node_size = 6, node_popularity = 0\<rparr>] []
         \<lparr>total_nodes = 1, total_links = 0, stats_artists = 0, stats_albums = 1\<rparr>"
    by code_simp
  have b: "get_graph_data py_str [[''album_name'' \<mapsto> PInt 5]] = GraphError AttributeError [] []"
    by code_simp
  have c: "get_graph_data py_str [[''popularity'' \<mapsto> PStr ''high'']] = GraphError TypeError [] []"
    by code_simp
  have d: "get_graph_data py_str [[''popularity'' \<mapsto> PInt (2 ^ 1024)]] = GraphError OverflowError [] []"
    by code_simp
  show ?thesis
    using p l r ok a b c d by blast
qed

theorem graph_data_structured_error_witness:
  "graph_body (\<lambda>v. ''None'') [[''album_name'' \<mapsto> PInt 5]] = Inl AttributeError
   \<and> get_graph_data (\<lambda>v. ''None'') [[''album_name'' \<mapsto> PInt 5]] = GraphError AttributeError [] []
   \<and> graph_body (\<lambda>v. ''None'') [] = Inr \<lparr>nodes = [], links = [], node_ids = {}\<rparr>
   \<and> get_graph_data (\<lambda>v. ''None'') [] =
       GraphOk [] [] \<lparr>total_nodes = 0, total_links = 0, stats_artists = 0, stats_albums = 0\<rparr>
   \<and> list_all graph_ready two_tracks
   \<and> (\<exists>ns ls st. get_graph_data (\<lambda>v. ''None'') two_tracks = GraphOk ns ls st)"
proof -
  let ?f = "\<lambda>v::pyval. ''None''"
  have a: "graph_body ?f [[''album_name'' \<mapsto> PInt 5]] = Inl AttributeError"
    by code_simp
  have b: "graph_body ?f [] = Inr \<lparr>nodes = [], links = [], node_ids = {}\<rparr>"
    by (simp add: graph_body_def sorted_artists_def artist_songs_def sorted_albums_def top_k_def)
  have c: "\<forall>s\<in>set two_tracks. graph_ready s"
    by (simp add: two_tracks_def graph_ready_track)
  have c': "list_all graph_ready two_tracks"
    by (simp add: two_tracks_def graph_ready_track)
  from graph_data_structured_error[of ?f "[[''album_name'' \<mapsto> PInt 5]]"] a
  have a': "get_graph_data ?f [[''album_name'' \<mapsto> PInt 5]] = GraphError AttributeError [] []"
    by blast
  from graph_data_structured_error[of ?f "[]"] b
  have "get_graph_data ?f [] =
      GraphOk (nodes \<lparr>nodes = [], links = [], node_ids = {}\<rparr>)
        (links \<lparr>nodes = [], links = [], node_ids = {}\<rparr>)
        \<lparr>total_nodes = length (nodes \<lparr>nodes = [], links = [], node_ids = {}\<rparr>),
         total_links = length (links \<lparr>nodes = [], links = [], node_ids = {}\<rparr>),
         stats_artists = length (filter (\<lambda>n. node_type n = ''artist'')
                                   (nodes \<lparr>nodes = [], links = [], node_ids = {}\<rparr>)),
         stats_albums = length (filter (\<lambda>n. node_type n = ''album'')
                                  (nodes \<lparr>nodes = [], links = [], node_ids = {}\<rparr>))\<rparr>"
    by blast
  then have b': "get_graph_data ?f [] =
       GraphOk [] [] \<lparr>total_nodes = 0, total_links = 0, stats_artists = 0, stats_albums = 0\<rparr>"
    by simp
  from graph_data_structured_error[of ?f two_tracks] c
  have d: "\<exists>ns ls st. get_graph_data ?f two_tracks = GraphOk ns ls st"
    by blast
  show ?thesis using a a' b b' c' d by blast
qed

text \<open>
  C9. When the builder returns a payload, its nodes are, in order, one node per retained
  artist with size \<open>max 5 (min (2 * count) 30)\<close> and one node per retained album with size
  \<open>max 5 (min (count + 5) 25)\<close>, where \<open>count\<close> is the number of records of the group.
  So an artist node has a size between 5 and 30, an album node a size between 5 and 25,
  and a retained artist with 1000 records has size 30.
\<close>

theorem node_size_clamped:
  assumes "get_graph_data py_str data = GraphOk ns ls st"
  shows "\<exists>d. album_data py_str data [] = Inr d
   \<and> map node_shape ns =
       map (\<lambda>x. (''artist_'' @ fst x, ''artist'', max 5 (min (length (snd x) * 2) 30)))
         (sorted_artists py_str data) @
       map (\<lambda>x. (''album_'' @ fst x, ''album'', max 5 (min (length (songs (snd x)) + 5) 25)))
         (sorted_albums d)
   \<and> (\<forall>n\<in>set ns. node_type n = ''artist'' \<longrightarrow> 5 \<le> node_size n \<and> node_size n \<le> 30)
   \<and> (\<forall>n\<in>set ns. node_type n = ''album'' \<longrightarrow> 5 \<le> node_size n \<and> node_size n \<le> 25)
   \<and> (\<forall>n\<in>set ns. node_type n = ''artist'' \<or> node_type n = ''album'')
   \<and> (\<forall>x\<in>set (sorted_artists py_str data). length (snd x) = 1000 \<longrightarrow>
         (''artist_'' @ fst x, ''artist'', 30) \<in> node_shape ` set ns)"
proof -
  from graph_ok_structure[OF assms] obtain d where d: "album_data py_str data [] = Inr d"
    and sh: "map node_shape ns =
       map (\<lambda>x. (''artist_'' @ fst x, ''artist'', max 5 (min (length (snd x) * 2) 30)))
         (sorted_artists py_str data) @
       map (\<lambda>x. (''album_'' @ fst x, ''album'', max 5 (min (length (songs (snd x)) + 5) 25)))
         (sorted_albums d)"
    by blast
  have setsh: "node_shape ` set ns =
      (\<lambda>x. (''artist_'' @ fst x, ''artist'', max 5 (min (length (snd x) * 2) 30)))
         ` set (sorted_artists py_str data) \<union>
      (\<lambda>x. (''album_'' @ fst x, ''album'', max 5 (min (length (songs (snd x)) + 5) 25)))
         ` set (sorted_albums d)"
    using arg_cong[OF sh, of set] by simp
  have cases: "(\<exists>x :: string \<times> song list.
          node_shape n = (''artist_'' @ fst x, ''artist'', max 5 (min (length (snd x) * 2) 30)))
      \<or> (\<exists>x :: string \<times> album_info. node_shape n = (''album_'' @ fst x, ''album'', max 5 (min (length (songs (snd x)) + 5) 25)))"
    if "n \<in> set ns" for n :: node
  proof -
    from that have "node_shape n \<in> node_shape ` set ns" by (rule imageI)
    then show ?thesis unfolding setsh by blast
  qed
  have p1: "\<forall>n\<in>set ns. node_type n = ''artist'' \<longrightarrow> 5 \<le> node_size n \<and> node_size n \<le> 30"
    using cases by (fastforce simp: node_shape_def)
  have p2: "\<forall>n\<in>set ns. node_type n = ''album'' \<longrightarrow> 5 \<le> node_size n \<and> node_size n \<le> 25"
    using cases by (fastforce simp: node_shape_def)
  have p3: "\<forall>n\<in>set ns. node_type n = ''artist'' \<or> node_type n = ''album''"
    using cases by (fastforce simp: node_shape_def)
  have p4: "\<forall>x\<in>set (sorted_artists py_str data). length (snd x) = 1000 \<longrightarrow>
         (''artist_'' @ fst x, ''artist'', 30) \<in> node_shape ` set ns"
  proof (intro ballI impI)
    fix x assume x: "x \<in> set (sorted_artists py_str data)" and l: "length (snd x) = 1000"
    have "(''artist_'' @ fst x, ''artist'', max 5 (min (length (snd x) * 2) 30)) \<in> node_shape ` set ns"
      unfolding setsh using x by blast
    then show "(''artist_'' @ fst x, ''artist'', 30) \<in> node_shape ` set ns"
      by (simp add: l)
  qed
  show ?thesis using d sh p1 p2 p3 p4 by blast
qed

theorem node_size_clamped_witness:
  "get_graph_data (\<lambda>v. ''None'') (replicate 20 (track ''A'' ''X'' 10)) =
     GraphOk
       [\<lparr>node_id = ''artist_A'', node_name = ''A'', node_type = ''artist'', node_size = 30,
          node_popularity = 10\<rparr>,
        \<lparr>node_id = ''album_X'', node_name = ''X'', node_type = ''album'', node_size = 25,
          node_popularity = 10\<rparr>]
       [\<lparr>link_source = ''artist_A'', link_target = ''album_X'', link_value = 20\<rparr>]
       \<lparr>total_nodes = 2, total_links = 1, stats_artists = 1, stats_albums = 1\<rparr>
   \<and> 5 \<le> (30::nat) \<and> (30::nat) \<le> 30 \<and> 5 \<le> (25::nat) \<and> (25::nat) \<le> 25"
proof -
  have e: "get_graph_data (\<lambda>v. ''None'') (replicate 20 (track ''A'' ''X'' 10)) =
     GraphOk
       [\<lparr>node_id = ''artist_A'', node_name = ''A'', node_type = ''artist'', node_size = 30,
          node_popularity = 10\<rparr>,
        \<lparr>node_id = ''album_X'', node_name = ''X'', node_type = ''album'', node_size = 25,
          node_popularity = 10\<rparr>]
       [\<lparr>link_source = ''artist_A'', link_target = ''album_X'', link_value = 20\<rparr>]
       \<lparr>total_nodes = 2, total_links = 1, stats_artists = 1, stats_albums = 1\<rparr>"
    by code_simp
  show ?thesis
    using node_size_clamped[OF e] e by simp
qed

text \<open>
  C4. Every link of the answer has its source and its target among the identifiers of
  the answer's nodes. The source of a link is the node of a retained artist; an artist
  outside the retained set has no node and is the source of no link, and every node is
  the node of a retained artist or of a retained album.
\<close>

theorem edges_have_endpoints:
  "(\<forall>l\<in>set (response_links (get_graph_data py_str data)).
       link_source l \<in> node_id ` set (response_nodes (get_graph_data py_str data))
     \<and> link_target l \<in> node_id ` set (response_nodes (get_graph_data py_str data))
     \<and> link_source l \<in> (\<lambda>x. ''artist_'' @ fst x) ` set (sorted_artists py_str data))
   \<and> (\<forall>a. a \<notin> fst ` set (sorted_artists py_str data) \<longrightarrow>
         ''artist_'' @ a \<notin> node_id ` set (response_nodes (get_graph_data py_str data))
       \<and> ''artist_'' @ a \<notin> link_source ` set (response_links (get_graph_data py_str data)))
   \<and> (\<forall>n\<in>set (response_nodes (get_graph_data py_str data)).
         node_id n \<in> (\<lambda>x. ''artist_'' @ fst x) ` set (sorted_artists py_str data)
       \<or> (\<exists>d. album_data py_str data [] = Inr d
             \<and> node_id n \<in> (\<lambda>x. ''album_'' @ fst x) ` set (sorted_albums d)))"
proof (cases "get_graph_data py_str data")
  case (GraphError e ns ls)
  from graph_error_empty[OF this] show ?thesis by (simp add: GraphError)
next
  case (Propagated e)
  then show ?thesis by simp
next
  case (GraphOk ns ls st)
  from graph_ok_node_ids[OF GraphOk] obtain d where d: "album_data py_str data [] = Inr d"
    and ids: "node_id ` set ns = (\<lambda>x. ''artist_'' @ fst x) ` set (sorted_artists py_str data)
                      \<union> (\<lambda>x. ''album_'' @ fst x) ` set (sorted_albums d)"
    by blast
  have lk: "link_source l \<in> (\<lambda>x. ''artist_'' @ fst x) ` set (sorted_artists py_str data)
      \<and> link_target l \<in> (\<lambda>x. ''album_'' @ fst x) ` set (sorted_albums d)"
    if "l \<in> set ls" for l
  proof -
    from graph_ok_link[OF GraphOk that] obtain d' x a where
      d': "album_data py_str data [] = Inr d'" and x: "x \<in> set (sorted_albums d')"
      and a: "a \<in> fst ` set (sorted_artists py_str data)"
      and l: "l = \<lparr>link_source = ''artist_'' @ a, link_target = ''album_'' @ fst x,
              link_value = length (songs (snd x))\<rparr>"
      by blast
    from d d' have "d' = d" by simp
    with x a show ?thesis by (auto simp: l)
  qed
  have p1: "\<forall>l\<in>set ls. link_source l \<in> node_id ` set ns \<and> link_target l \<in> node_id ` set ns
     \<and> link_source l \<in> (\<lambda>x. ''artist_'' @ fst x) ` set (sorted_artists py_str data)"
    using lk unfolding ids by blast
  have p2: "''artist_'' @ a \<notin> node_id ` set ns \<and> ''artist_'' @ a \<notin> link_source ` set ls"
    if "a \<notin> fst ` set (sorted_artists py_str data)" for a
  proof -
    have n: "''artist_'' @ a \<notin> (\<lambda>x. ''artist_'' @ fst x) ` set (sorted_artists py_str data)"
      using that by auto
    have "''artist_'' @ a \<notin> (\<lambda>x. ''album_'' @ fst x) ` set (sorted_albums d)"
      by auto
    with n have "''artist_'' @ a \<notin> node_id ` set ns" unfolding ids by blast
    moreover have "''artist_'' @ a \<notin> link_source ` set ls"
    proof
      assume "''artist_'' @ a \<in> link_source ` set ls"
      then obtain l where "l \<in> set ls" and "link_source l = ''artist_'' @ a" by auto
      with lk[of l] n show False by simp
    qed
    ultimately show ?thesis by blast
  qed
  have p3: "\<forall>n\<in>set ns.
         node_id n \<in> (\<lambda>x. ''artist_'' @ fst x) ` set (sorted_artists py_str data)
       \<or> (\<exists>d. album_data py_str data [] = Inr d
             \<and> node_id n \<in> (\<lambda>x. ''album_'' @ fst x) ` set (sorted_albums d))"
    using ids d by blast
  show ?thesis
    unfolding GraphOk response_links.simps response_nodes.simps
    using p1 p2 p3 by blast
qed

theorem edges_have_endpoints_witness:
  "''Z'' \<notin> fst ` set (sorted_artists (\<lambda>v. ''None'') fifty_one_artists)
   \<and> ''artist_Z'' \<notin> node_id ` set (response_nodes (get_graph_data (\<lambda>v. ''None'') fifty_one_artists))
   \<and> ''artist_Z'' \<notin> link_source ` set (response_links (get_graph_data (\<lambda>v. ''None'') fifty_one_artists))
   \<and> (\<exists>ns ls st. get_graph_data (\<lambda>v. ''None'') fifty_one_artists = GraphOk ns ls st)
   \<and> \<lparr>link_source = ''artist_B'', link_target = ''album_X'', link_value = 2\<rparr>
        \<in> set (response_links (get_graph_data (\<lambda>v. ''None'') two_tracks))
   \<and> ''artist_B'' \<in> node_id ` set (response_nodes (get_graph_data (\<lambda>v. ''None'') two_tracks))
   \<and> ''album_X'' \<in> node_id ` set (response_nodes (get_graph_data (\<lambda>v. ''None'') two_tracks))"
proof -
  let ?f = "\<lambda>v::pyval. ''None''"
  have "''Z'' \<notin> fst ` set (most_common 50 (counter (=) (attributions ?f fifty_one_artists)))"
    by code_simp
  then have z: "''Z'' \<notin> fst ` set (sorted_artists ?f fifty_one_artists)"
    unfolding retained_names .
  from edges_have_endpoints[of ?f fifty_one_artists] z
  have "''artist_'' @ ''Z'' \<notin> node_id ` set (response_nodes (get_graph_data ?f fifty_one_artists))
      \<and> ''artist_'' @ ''Z'' \<notin> link_source ` set (response_links (get_graph_data ?f fifty_one_artists))"
    by blast
  then have nz: "''artist_Z'' \<notin> node_id ` set (response_nodes (get_graph_data ?f fifty_one_artists))
      \<and> ''artist_Z'' \<notin> link_source ` set (response_links (get_graph_data ?f fifty_one_artists))"
    by simp
  have "\<forall>s\<in>set fifty_one_artists. graph_ready s"
    by (simp add: fifty_one_artists_def graph_ready_track)
  from get_graph_data_ok[OF this]
  have ok: "\<exists>ns ls st. get_graph_data ?f fifty_one_artists = GraphOk ns ls st" .
  have m: "\<lparr>link_source = ''artist_B'', link_target = ''album_X'', link_value = 2\<rparr>
        \<in> set (response_links (get_graph_data ?f two_tracks))"
    by code_simp
  from edges_have_endpoints[of ?f two_tracks] m
  have "link_source \<lparr>link_source = ''artist_B'', link_target = ''album_X'', link_value = 2\<rparr>
          \<in> node_id ` set (response_nodes (get_graph_data ?f two_tracks))
      \<and> link_target \<lparr>link_source = ''artist_B'', link_target = ''album_X'', link_value = 2\<rparr>
          \<in> node_id ` set (response_nodes (get_graph_data ?f two_tracks))"
    by blast
  then have e: "''artist_B'' \<in> node_id ` set (response_nodes (get_graph_data ?f two_tracks))
      \<and> ''album_X'' \<in> node_id ` set (response_nodes (get_graph_data ?f two_tracks))"
    by simp
  show ?thesis using z nz ok m e by blast
qed

text \<open>
  C1, as the code has it. The weight of every link is the number of all records of its
  target album, whichever artists they name; the source is an artist named by at least
  one of these records.
\<close>

theorem edge_weight_is_album_record_count:
  "\<forall>l\<in>set (response_links (get_graph_data py_str data)).
     \<exists>a album. link_source l = ''artist_'' @ a \<and> link_target l = ''album_'' @ album
       \<and> link_value l = length (album_songs data album)
       \<and> (\<exists>s\<in>set (album_songs data album). a \<in> set (album_artists py_str (artist_field s)))"
proof (cases "get_graph_data py_str data")
  case (GraphError e ns ls)
  from graph_error_empty[OF this] show ?thesis by (simp add: GraphError)
next
  case (Propagated e)
  then show ?thesis by simp
next
  case (GraphOk ns ls st)
  have "\<exists>a album. link_source l = ''artist_'' @ a \<and> link_target l = ''album_'' @ album
       \<and> link_value l = length (album_songs data album)
       \<and> (\<exists>s\<in>set (album_songs data album). a \<in> set (album_artists py_str (artist_field s)))"
    if "l \<in> set ls" for l
  proof -
    from graph_ok_link[OF GraphOk that] obtain d x a where
      inv: "album_inv py_str data d" and x: "x \<in> set d"
      and a: "a \<in> set (artists (snd x))"
      and l: "l = \<lparr>link_source = ''artist_'' @ a, link_target = ''album_'' @ fst x,
              link_value = length (songs (snd x))\<rparr>"
      by blast
    from inv x have s: "songs (snd x) = album_songs data (fst x)"
      and as: "set (artists (snd x)) =
         (\<Union>s\<in>set (album_songs data (fst x)). set (album_artists py_str (artist_field s)))"
      by (auto simp: album_inv_def)
    from a as have "\<exists>s\<in>set (album_songs data (fst x)). a \<in> set (album_artists py_str (artist_field s))"
      by blast
    with s show ?thesis by (auto simp: l)
  qed
  then show ?thesis by (simp add: GraphOk)
qed

theorem edge_weight_counterexample:
  "\<lparr>link_source = ''artist_B'', link_target = ''album_X'', link_value = 2\<rparr>
     \<in> set (response_links (get_graph_data (\<lambda>v. ''None'') two_tracks))
   \<and> pair_track_count (\<lambda>v. ''None'') two_tracks ''B'' ''X'' = 1"
  by code_simp

theorem edge_weight_is_album_record_count_witness:
  "\<lparr>link_source = ''artist_B'', link_target = ''album_X'', link_value = 2\<rparr>
        \<in> set (response_links (get_graph_data (\<lambda>v. ''None'') two_tracks))
   \<and> length (album_songs two_tracks ''X'') = 2
   \<and> (\<exists>a album. ''artist_B'' = ''artist_'' @ a \<and> ''album_X'' = ''album_'' @ album
         \<and> 2 = length (album_songs two_tracks album))"
proof -
  let ?f = "\<lambda>v::pyval. ''None''"
  have m: "\<lparr>link_source = ''artist_B'', link_target = ''album_X'', link_value = 2\<rparr>
        \<in> set (response_links (get_graph_data ?f two_tracks))"
    by code_simp
  have n: "length (album_songs two_tracks ''X'') = 2"
    by code_simp
  from edge_weight_is_album_record_count[of ?f two_tracks] m
  have "\<exists>a album.
       link_source \<lparr>link_source = ''artist_B'', link_target = ''album_X'', link_value = 2\<rparr> = ''artist_'' @ a
     \<and> link_target \<lparr>link_source = ''artist_B'', link_target = ''album_X'', link_value = 2\<rparr> = ''album_'' @ album
     \<and> link_value \<lparr>link_source = ''artist_B'', link_target = ''album_X'', link_value = 2\<rparr>
         = length (album_songs two_tracks album)"
    by blast
  then have "\<exists>a album. ''artist_B'' = ''artist_'' @ a \<and> ''album_X'' = ''album_'' @ album
         \<and> 2 = length (album_songs two_tracks album)"
    by simp
  with m n show ?thesis by blast
qed

text \<open>
  C10. A record whose artist-names field is blank (or empty, or absent) is filed under no
  artist: the artist groups are those of the other records. It is still filed under its
  album: when the second loop finishes, the group of its album holds it. An album all of
  whose records have a blank field has an empty artist set and is the target of no link,
  and when it is retained it has a node. The single record with an empty field on the
  album \<open>X\<close> gives the node of \<open>X\<close> and no link.
\<close>

theorem blank_artist_isolated_album:
  "((\<forall>c\<in>set a. isspace c) \<and> artist_field s = PStr a \<longrightarrow>
       artist_songs py_str (pre @ [s] @ post) = artist_songs py_str (pre @ post)
     \<and> (\<forall>d. album_data py_str (pre @ [s] @ post) [] = Inr d \<longrightarrow>
           (\<exists>x\<in>set d. resolve_album s = Inr (fst x) \<and> s \<in> set (songs (snd x)))))
   \<and> ((\<forall>s\<in>set (album_songs data album). \<exists>a. artist_field s = PStr a \<and> (\<forall>c\<in>set a. isspace c)) \<longrightarrow>
         ''album_'' @ album \<notin> link_target ` set (response_links (get_graph_data py_str data))
       \<and> (\<forall>d\<in>{d. album_data py_str data [] = Inr d}. \<forall>x\<in>set d. fst x = album \<longrightarrow> artists (snd x) = [])
       \<and> (\<forall>d ns ls st. album_data py_str data [] = Inr d \<and> album \<in> fst ` set (sorted_albums d)
             \<and> get_graph_data py_str data = GraphOk ns ls st \<longrightarrow>
             ''album_'' @ album \<in> node_id ` set ns))
   \<and> get_graph_data py_str [track [] ''X'' 10] =
       GraphOk [\<lparr>node_id = ''album_X'', node_name = ''X'', node_type = ''album'', node_size = 6,
                 node_popularity = 10\<rparr>] []
         \<lparr>total_nodes = 1, total_links = 0, stats_artists = 0, stats_albums = 1\<rparr>"
proof -
  have p1: "artist_songs py_str (pre @ [s] @ post) = artist_songs py_str (pre @ post)
     \<and> (\<forall>d. album_data py_str (pre @ [s] @ post) [] = Inr d \<longrightarrow>
           (\<exists>x\<in>set d. resolve_album s = Inr (fst x) \<and> s \<in> set (songs (snd x))))"
    if blank: "\<forall>c\<in>set a. isspace c" and fld: "artist_field s = PStr a"
  proof -
    have "graph_artists py_str (artist_field s) = []"
      using blank_artists(1)[OF blank] by (simp add: fld)
    then have g: "artist_songs py_str (pre @ [s] @ post) = artist_songs py_str (pre @ post)"
      by (rule artist_songs_skip)
    have "\<exists>x\<in>set d. resolve_album s = Inr (fst x) \<and> s \<in> set (songs (snd x))"
      if d: "album_data py_str (pre @ [s] @ post) [] = Inr d" for d
    proof -
      note inv = album_data_groups[OF d]
      from album_data_resolved[OF d, of s] obtain al where al: "resolve_album s = Inr al" by auto
      then have mem: "s \<in> set (album_songs (pre @ [s] @ post) al)" by (simp add: album_songs_def)
      then have "al \<in> fst ` set d" using inv by (auto simp: album_inv_def)
      then obtain x where x: "x \<in> set d" and fx: "fst x = al" by auto
      with inv have "songs (snd x) = album_songs (pre @ [s] @ post) al" by (auto simp: album_inv_def)
      with mem x fx al show ?thesis by auto
    qed
    with g show ?thesis by blast
  qed
  have p2: "''album_'' @ album \<notin> link_target ` set (response_links (get_graph_data py_str data))
       \<and> (\<forall>d\<in>{d. album_data py_str data [] = Inr d}. \<forall>x\<in>set d. fst x = album \<longrightarrow> artists (snd x) = [])
       \<and> (\<forall>d ns ls st. album_data py_str data [] = Inr d \<and> album \<in> fst ` set (sorted_albums d)
             \<and> get_graph_data py_str data = GraphOk ns ls st \<longrightarrow>
             ''album_'' @ album \<in> node_id ` set ns)"
    if blank: "\<forall>s\<in>set (album_songs data album). \<exists>a. artist_field s = PStr a \<and> (\<forall>c\<in>set a. isspace c)"
  proof -
    have none: "album_artists py_str (artist_field s) = []" if "s \<in> set (album_songs data album)" for s
      using blank that blank_artists(2) by fastforce
    have ar: "artists (snd x) = []" if d: "album_data py_str data [] = Inr d" and x: "x \<in> set d"
      and fx: "fst x = album" for d x
    proof -
      from album_data_groups[OF d] x have "set (artists (snd x)) =
          (\<Union>s\<in>set (album_songs data (fst x)). set (album_artists py_str (artist_field s)))"
        by (auto simp: album_inv_def)
      with none fx show ?thesis by simp
    qed
    have nl: "''album_'' @ album \<notin> link_target ` set (response_links (get_graph_data py_str data))"
    proof (cases "get_graph_data py_str data")
      case (GraphError e ns ls)
      from graph_error_empty[OF this] show ?thesis by (simp add: GraphError)
    next
      case (Propagated e)
      then show ?thesis by simp
    next
      case (GraphOk ns ls st)
      have "link_target l \<noteq> ''album_'' @ album" if "l \<in> set ls" for l
      proof -
        from graph_ok_link[OF GraphOk that] obtain d x a where
          d: "album_data py_str data [] = Inr d" and x: "x \<in> set d"
          and a: "a \<in> set (artists (snd x))"
          and l: "l = \<lparr>link_source = ''artist_'' @ a, link_target = ''album_'' @ fst x,
              link_value = length (songs (snd x))\<rparr>"
          by blast
        from ar[OF d x] a have "fst x \<noteq> album" by auto
        then show ?thesis by (simp add: l)
      qed
      then have "''album_'' @ album \<notin> link_target ` set ls"
      proof -
        assume h: "\<And>l. l \<in> set ls \<Longrightarrow> link_target l \<noteq> ''album_'' @ album"
        show ?thesis
        proof
          assume "''album_'' @ album \<in> link_target ` set ls"
          then obtain l where "l \<in> set ls" and "link_target l = ''album_'' @ album"
            by (auto simp: image_iff)
          with h[of l] show False by simp
        qed
      qed
      then show ?thesis unfolding GraphOk response_links.simps .
    qed
    have nd: "''album_'' @ album \<in> node_id ` set ns"
      if "album_data py_str data [] = Inr d" "album \<in> fst ` set (sorted_albums d)"
        "get_graph_data py_str data = GraphOk ns ls st" for d ns ls st
    proof -
      from graph_ok_node_ids[OF that(3)] that(1)
      have "node_id ` set ns = (\<lambda>x. ''artist_'' @ fst x) ` set (sorted_artists py_str data)
                      \<union> (\<lambda>x. ''album_'' @ fst x) ` set (sorted_albums d)"
        by auto
      with that(2) show ?thesis by auto
    qed
    show ?thesis using ar nl nd by blast
  qed
  have p3: "get_graph_data py_str [track [] ''X'' 10] =
       GraphOk [\<lparr>node_id = ''album_X'', node_name = ''X'', node_type = ''album'', node_size = 6,
                 node_popularity = 10\<rparr>] []
         \<lparr>total_nodes = 1, total_links = 0, stats_artists = 0, stats_albums = 1\<rparr>"
    by code_simp
  show ?thesis using p1 p2 p3 by blast
qed

theorem blank_artist_isolated_album_witness:
  "list_all isspace ''  ''
   \<and> artist_field (track ''  '' ''Y'' 10) = PStr ''  ''
   \<and> artist_songs (\<lambda>v. ''None'') ([track ''A'' ''X'' 5] @ [track ''  '' ''Y'' 10] @ []) =
       artist_songs (\<lambda>v. ''None'') ([track ''A'' ''X'' 5] @ [])
   \<and> ''album_'' @ ''Y'' \<notin> link_target `
        set (response_links (get_graph_data (\<lambda>v. ''None'') [track ''A'' ''X'' 5, track ''  '' ''Y'' 10]))
   \<and> ''album_Y'' \<in> node_id `
        set (response_nodes (get_graph_data (\<lambda>v. ''None'') [track ''A'' ''X'' 5, track ''  '' ''Y'' 10]))"
proof -
  let ?f = "\<lambda>v::pyval. ''None''"
  let ?s = "track ''  '' ''Y'' 10"
  let ?data = "[track ''A'' ''X'' 5, ?s]"
  have b: "\<forall>c\<in>set ''  ''. isspace c" by (simp add: isspace_def)
  have b': "list_all isspace ''  ''" by (simp add: isspace_def)
  have fld: "artist_field ?s = PStr ''  ''"
    by (simp add: artist_field_def track_def dict_get_def)
  have al: "album_songs ?data ''Y'' = [?s]"
    by (simp add: album_songs_def resolve_album_def track_def dict_get_def strip_def isspace_def)
  have h: "\<forall>s\<in>set (album_songs ?data ''Y''). \<exists>a. artist_field s = PStr a \<and> (\<forall>c\<in>set a. isspace c)"
    unfolding al using fld b by simp
  have n: "''album_Y'' \<in> node_id ` set (response_nodes (get_graph_data ?f ?data))"
    by code_simp
  from blank_artist_isolated_album[of "''  ''" ?s ?f "[track ''A'' ''X'' 5]" "[]" ?data "''Y''"] b fld
  have g: "artist_songs ?f ([track ''A'' ''X'' 5] @ [?s] @ []) = artist_songs ?f ([track ''A'' ''X'' 5] @ [])"
    by blast
  from blank_artist_isolated_album[of "''  ''" ?s ?f "[track ''A'' ''X'' 5]" "[]" ?data "''Y''"] h
  have l: "''album_'' @ ''Y'' \<notin> link_target ` set (response_links (get_graph_data ?f ?data))"
    by blast
  show ?thesis using b' fld g l n by blast
qed

text \<open>
  C6. Ranking keeps the first \<open>n\<close> entries of the stable sort by descending cardinality:
  the result has \<open>min n (length items)\<close> entries in descending order of cardinality;
  together with the entries left out it is a rearrangement of the mapping's entries; no
  entry left out has a greater cardinality than a retained one; and the entries of equal
  cardinality keep the mapping's insertion order, the retained ones first. Artists are
  ranked with \<open>n = 50\<close>, albums with \<open>n = 40\<close>. The artist groups are the distinct
  attributed names, each with its number of attributions. A payload has
  \<open>min 50\<close> (number of artists) artist nodes. An artist with at least fifty artists of
  strictly greater count has no node and is the source of no link; so has an artist whose
  count no other artist shares and who has fewer artists below than there are artists in
  excess of fifty. With sixty artists of pairwise distinct counts these are exactly the
  ten artists of lowest count, and the payload has fifty artist nodes.
\<close>

theorem ranking_top_k:
  "(\<exists>rest.
       length (top_k n key items) = min n (length items)
     \<and> sorted_wrt (\<lambda>x y. key y \<le> key x) (top_k n key items)
     \<and> (\<forall>x. count_list (top_k n key items @ rest) x = count_list items x)
     \<and> (\<forall>x\<in>set (top_k n key items). \<forall>y\<in>set rest. key y \<le> key x)
     \<and> (\<forall>c. filter (\<lambda>x. key x = c) (top_k n key items) @ filter (\<lambda>x. key x = c) rest =
              filter (\<lambda>x. key x = c) items))
   \<and> sorted_artists py_str data = top_k 50 (\<lambda>x. length (snd x)) (artist_songs py_str data)
   \<and> sorted_albums d = top_k 40 (\<lambda>x. length (songs (snd x))) d
   \<and> artist_counts py_str data =
       map (\<lambda>k. (k, count_list (attributions py_str data) k)) (map fst (artist_counts py_str data))
   \<and> distinct (map fst (artist_counts py_str data))
   \<and> ((\<exists>ns ls st. get_graph_data py_str data = GraphOk ns ls st) \<longrightarrow>
        length (filter (\<lambda>n. node_type n = ''artist'') (response_nodes (get_graph_data py_str data)))
          = min 50 (length (artist_counts py_str data)))
   \<and> (\<forall>a c. (a, c) \<in> set (artist_counts py_str data)
          \<and> 50 \<le> length (filter (\<lambda>y. c < snd y) (artist_counts py_str data)) \<longrightarrow>
          ''artist_'' @ a \<notin> node_id ` set (response_nodes (get_graph_data py_str data))
        \<and> ''artist_'' @ a \<notin> link_source ` set (response_links (get_graph_data py_str data)))
   \<and> (\<forall>a c. (a, c) \<in> set (artist_counts py_str data)
          \<and> (\<forall>y\<in>set (artist_counts py_str data). snd y = c \<longrightarrow> y = (a, c))
          \<and> length (filter (\<lambda>y. snd y < c) (artist_counts py_str data)) + 50
               < length (artist_counts py_str data) \<longrightarrow>
          ''artist_'' @ a \<notin> node_id ` set (response_nodes (get_graph_data py_str data))
        \<and> ''artist_'' @ a \<notin> link_source ` set (response_links (get_graph_data py_str data)))"
proof -
  let ?rest = "drop n (sort_key (\<lambda>x. - int (key x)) items)"
  note tk = top_k_ranking[where n = n and key = key and items = items]
  have r: "length (top_k n key items) = min n (length items)
     \<and> sorted_wrt (\<lambda>x y. key y \<le> key x) (top_k n key items)
     \<and> (\<forall>x. count_list (top_k n key items @ ?rest) x = count_list items x)
     \<and> (\<forall>x\<in>set (top_k n key items). \<forall>y\<in>set ?rest. key y \<le> key x)
     \<and> (\<forall>c. filter (\<lambda>x. key x = c) (top_k n key items) @ filter (\<lambda>x. key x = c) ?rest =
              filter (\<lambda>x. key x = c) items)"
    by (intro conjI allI) (rule tk)+
  have r': "\<exists>rest.
       length (top_k n key items) = min n (length items)
     \<and> sorted_wrt (\<lambda>x y. key y \<le> key x) (top_k n key items)
     \<and> (\<forall>x. count_list (top_k n key items @ rest) x = count_list items x)
     \<and> (\<forall>x\<in>set (top_k n key items). \<forall>y\<in>set rest. key y \<le> key x)
     \<and> (\<forall>c. filter (\<lambda>x. key x = c) (top_k n key items) @ filter (\<lambda>x. key x = c) rest =
              filter (\<lambda>x. key x = c) items)"
    by (rule exI[of _ "drop n (sort_key (\<lambda>x. - int (key x)) items)"]) (rule r)
  have k1: "sorted_artists py_str data = top_k 50 (\<lambda>x. length (snd x)) (artist_songs py_str data)"
    by (simp add: sorted_artists_def)
  have k2: "sorted_albums d = top_k 40 (\<lambda>x. length (songs (snd x))) d"
    by (simp add: sorted_albums_def)
  note c1 = artist_counts_spec[of py_str data]
  note c2 = distinct_artist_counts[of py_str data]
  have g1: "(\<exists>ns ls st. get_graph_data py_str data = GraphOk ns ls st) \<longrightarrow>
        length (filter (\<lambda>n. node_type n = ''artist'') (response_nodes (get_graph_data py_str data)))
          = min 50 (length (artist_counts py_str data))"
  proof
    assume "\<exists>ns ls st. get_graph_data py_str data = GraphOk ns ls st"
    then obtain ns ls st where ok: "get_graph_data py_str data = GraphOk ns ls st" by blast
    from artist_node_count(1)[OF ok] show "length (filter (\<lambda>n. node_type n = ''artist'')
        (response_nodes (get_graph_data py_str data))) = min 50 (length (artist_counts py_str data))"
      by (simp add: ok)
  qed
  have g2: "\<forall>a c. (a, c) \<in> set (artist_counts py_str data)
          \<and> 50 \<le> length (filter (\<lambda>y. c < snd y) (artist_counts py_str data)) \<longrightarrow>
          ''artist_'' @ a \<notin> node_id ` set (response_nodes (get_graph_data py_str data))
        \<and> ''artist_'' @ a \<notin> link_source ` set (response_links (get_graph_data py_str data))"
  proof (intro allI impI)
    fix a c
    assume h: "(a, c) \<in> set (artist_counts py_str data)
          \<and> 50 \<le> length (filter (\<lambda>y. c < snd y) (artist_counts py_str data))"
    then have "a \<notin> fst ` set (sorted_artists py_str data)"
      using many_greater_not_retained[of a c py_str data] by blast
    then show "''artist_'' @ a \<notin> node_id ` set (response_nodes (get_graph_data py_str data))
        \<and> ''artist_'' @ a \<notin> link_source ` set (response_links (get_graph_data py_str data))"
      by (rule not_retained_excluded)
  qed
  have g3: "\<forall>a c. (a, c) \<in> set (artist_counts py_str data)
          \<and> (\<forall>y\<in>set (artist_counts py_str data). snd y = c \<longrightarrow> y = (a, c))
          \<and> length (filter (\<lambda>y. snd y < c) (artist_counts py_str data)) + 50
               < length (artist_counts py_str data) \<longrightarrow>
          ''artist_'' @ a \<notin> node_id ` set (response_nodes (get_graph_data py_str data))
        \<and> ''artist_'' @ a \<notin> link_source ` set (response_links (get_graph_data py_str data))"
  proof (intro allI impI)
    fix a c
    assume h: "(a, c) \<in> set (artist_counts py_str data)
          \<and> (\<forall>y\<in>set (artist_counts py_str data). snd y = c \<longrightarrow> y = (a, c))
          \<and> length (filter (\<lambda>y. snd y < c) (artist_counts py_str data)) + 50
               < length (artist_counts py_str data)"
    then have m: "(a, c) \<in> set (artist_counts py_str data)"
      and u: "\<forall>y\<in>set (artist_counts py_str data). snd y = c \<longrightarrow> y = (a, c)"
      and l: "length (filter (\<lambda>y. snd y < c) (artist_counts py_str data)) + 50
               < length (artist_counts py_str data)"
      by blast+
    from untied_low_many_greater[OF m u l]
    have "50 \<le> length (filter (\<lambda>y. c < snd y) (artist_counts py_str data))" .
    with m have "a \<notin> fst ` set (sorted_artists py_str data)"
      by (rule many_greater_not_retained)
    then show "''artist_'' @ a \<notin> node_id ` set (response_nodes (get_graph_data py_str data))
        \<and> ''artist_'' @ a \<notin> link_source ` set (response_links (get_graph_data py_str data))"
      by (rule not_retained_excluded)
  qed
  show ?thesis
    by (intro conjI) (rule r' k1 k2 c1 c2 g1 g2 g3)+
qed

theorem ranking_top_k_witness:
  "top_k 2 snd [(''a'', 1), (''b'', 3), (''c'', 3), (''d'', 2), (''e'', 3)] = [(''b'', 3), (''c'', 3)]
   \<and> length (top_k 2 snd [(''a'', 1), (''b'', 3), (''c'', 3), (''d'', 2), (''e'', 3)]) = 2
   \<and> artist_counts (\<lambda>v. ''None'') fifty_one_artists =
       map (\<lambda>c. ([c], 2)) ''abcdefghijklmnopqrstuvwxyABCDEFGHIJKLMNOPQRSTUVWXY'' @ [(''Z'', 1)]
   \<and> (''Z'', 1) \<in> set (artist_counts (\<lambda>v. ''None'') fifty_one_artists)
   \<and> 50 \<le> length (filter (\<lambda>y. 1 < snd y) (artist_counts (\<lambda>v. ''None'') fifty_one_artists))
   \<and> filter (\<lambda>y. snd y = 1) (artist_counts (\<lambda>v. ''None'') fifty_one_artists) = [(''Z'', 1)]
   \<and> length (filter (\<lambda>y. snd y < 1) (artist_counts (\<lambda>v. ''None'') fifty_one_artists)) + 50
        < length (artist_counts (\<lambda>v. ''None'') fifty_one_artists)
   \<and> ''artist_Z'' \<notin> node_id ` set (response_nodes (get_graph_data (\<lambda>v. ''None'') fifty_one_artists))
   \<and> ''artist_Z'' \<notin> link_source ` set (response_links (get_graph_data (\<lambda>v. ''None'') fifty_one_artists))
   \<and> (\<exists>ns ls st. get_graph_data (\<lambda>v. ''None'') fifty_one_artists = GraphOk ns ls st)
   \<and> length (filter (\<lambda>n. node_type n = ''artist'')
         (response_nodes (get_graph_data (\<lambda>v. ''None'') fifty_one_artists))) = 50"
proof -
  let ?f = "\<lambda>v::pyval. ''None''"
  let ?C = "map (\<lambda>c. ([c], 2::nat)) ''abcdefghijklmnopqrstuvwxyABCDEFGHIJKLMNOPQRSTUVWXY'' @ [(''Z'', 1)]"
  let ?xs = "[(''a'', 1::nat), (''b'', 3), (''c'', 3), (''d'', 2), (''e'', 3)]"
  have t: "top_k 2 snd ?xs = [(''b'', 3), (''c'', 3)]"
    by (simp add: top_k_def)
  have "counter (=) (attributions ?f fifty_one_artists) = ?C"
    by code_simp
  then have ev: "artist_counts ?f fifty_one_artists = ?C"
    by (simp only: artist_counts_counter)
  have mem: "(''Z'', 1) \<in> set (artist_counts ?f fifty_one_artists)"
    unfolding ev by simp
  have many: "50 \<le> length (filter (\<lambda>y. 1 < snd y) (artist_counts ?f fifty_one_artists))"
    unfolding ev by (simp add: filter_map comp_def)
  have untied: "filter (\<lambda>y. snd y = 1) (artist_counts ?f fifty_one_artists) = [(''Z'', 1)]"
    unfolding ev by (simp add: filter_map comp_def)
  have low: "length (filter (\<lambda>y. snd y < 1) (artist_counts ?f fifty_one_artists)) + 50
        < length (artist_counts ?f fifty_one_artists)"
    unfolding ev by (simp add: filter_map comp_def)
  have rd: "\<forall>s\<in>set fifty_one_artists. graph_ready s"
    by (simp add: fifty_one_artists_def graph_ready_track)
  from get_graph_data_ok[OF rd]
  have ok: "\<exists>ns ls st. get_graph_data ?f fifty_one_artists = GraphOk ns ls st" .
  note th = ranking_top_k[of 2 snd ?xs ?f fifty_one_artists "[]"]
  from th have len: "length (top_k 2 snd ?xs) = min 2 (length ?xs)" by blast
  from th mem many
  have "''artist_'' @ ''Z'' \<notin> node_id ` set (response_nodes (get_graph_data ?f fifty_one_artists))
      \<and> ''artist_'' @ ''Z'' \<notin> link_source ` set (response_links (get_graph_data ?f fifty_one_artists))"
    by blast
  then have ex: "''artist_Z'' \<notin> node_id ` set (response_nodes (get_graph_data ?f fifty_one_artists))
      \<and> ''artist_Z'' \<notin> link_source ` set (response_links (get_graph_data ?f fifty_one_artists))"
    by simp
  from th ok
  have "length (filter (\<lambda>n. node_type n = ''artist'')
         (response_nodes (get_graph_data ?f fifty_one_artists))) =
        min 50 (length (artist_counts ?f fifty_one_artists))"
    by blast
  then have cnt: "length (filter (\<lambda>n. node_type n = ''artist'')
         (response_nodes (get_graph_data ?f fifty_one_artists))) = 50"
    unfolding ev by simp
  from len have len': "length (top_k 2 snd ?xs) = 2" by simp
  show ?thesis
    using t len' ev mem many untied low ex ok cnt by (intro conjI) blast+
qed

section \<open>The claims about the statistics\<close>

text \<open>
  C7. When the popularity of every record is an integer between 0 and 100, the loop of
  lines 79--90 finishes and the five counters are the numbers of records whose popularity
  lies in 0--20, 21--40, 41--60, 61--80 and 81--100; every record lies in exactly one of
  these ranges, and the five counters add up to the number of records. When
  \<^verbatim>\<open>get_statistics\<close> returns, its popularity distribution is this list and its total is
  the number of songs it reports.
\<close>

theorem popularity_buckets_partition:
  assumes "\<forall>s\<in>set data. pop_in 0 100 s"
  shows "popularity_ranges data popularity_init =
           Inr [(''0-20'', length (filter (pop_in 0 20) data)),
                (''21-40'', length (filter (pop_in 21 40) data)),
                (''41-60'', length (filter (pop_in 41 60) data)),
                (''61-80'', length (filter (pop_in 61 80) data)),
                (''81-100'', length (filter (pop_in 81 100) data))]
   \<and> (\<forall>s\<in>set data. length (filter (\<lambda>(lo, hi). pop_in lo hi s)
                         [(0, 20), (21, 40), (41, 60), (61, 80), (81, 100)]) = 1)
   \<and> length (filter (pop_in 0 20) data) + length (filter (pop_in 21 40) data)
       + length (filter (pop_in 41 60) data) + length (filter (pop_in 61 80) data)
       + length (filter (pop_in 81 100) data) = length data
   \<and> (\<forall>st. get_statistics data = Inr st \<longrightarrow>
         popularity_distribution st =
           [(''0-20'', length (filter (pop_in 0 20) data)),
            (''21-40'', length (filter (pop_in 21 40) data)),
            (''41-60'', length (filter (pop_in 41 60) data)),
            (''61-80'', length (filter (pop_in 61 80) data)),
            (''81-100'', length (filter (pop_in 81 100) data))]
       \<and> sum_list (map snd (popularity_distribution st)) = total_songs st)"
proof -
  have r: "popularity_ranges data popularity_init =
           Inr [(''0-20'', length (filter (pop_in 0 20) data)),
                (''21-40'', length (filter (pop_in 21 40) data)),
                (''41-60'', length (filter (pop_in 41 60) data)),
                (''61-80'', length (filter (pop_in 61 80) data)),
                (''81-100'', length (filter (pop_in 81 100) data))]"
    using popularity_ranges_counts[OF assms, of 0 0 0 0 0] by (simp add: popularity_init_def)
  have o: "\<forall>s\<in>set data. length (filter (\<lambda>(lo, hi). pop_in lo hi s)
                         [(0, 20), (21, 40), (41, 60), (61, 80), (81, 100)]) = 1"
    using assms one_bucket by blast
  note t = bucket_total[OF assms]
  have g: "popularity_distribution st =
           [(''0-20'', length (filter (pop_in 0 20) data)),
            (''21-40'', length (filter (pop_in 21 40) data)),
            (''41-60'', length (filter (pop_in 41 60) data)),
            (''61-80'', length (filter (pop_in 61 80) data)),
            (''81-100'', length (filter (pop_in 81 100) data))]
       \<and> sum_list (map snd (popularity_distribution st)) = total_songs st"
    if "get_statistics data = Inr st" for st
  proof -
    from get_statistics_popularity[OF that] r
    have d: "popularity_distribution st =
           [(''0-20'', length (filter (pop_in 0 20) data)),
            (''21-40'', length (filter (pop_in 21 40) data)),
            (''41-60'', length (filter (pop_in 41 60) data)),
            (''61-80'', length (filter (pop_in 61 80) data)),
            (''81-100'', length (filter (pop_in 81 100) data))]"
      and n: "total_songs st = length data"
      by simp_all
    show ?thesis unfolding d n using t by simp
  qed
  show ?thesis using r o t g by blast
qed



theorem popularity_buckets_partition_witness:
  "list_all (pop_in 0 100)
     [[''popularity'' \<mapsto> PInt 0], [''popularity'' \<mapsto> PInt 20], [''popularity'' \<mapsto> PInt 21],
      [''popularity'' \<mapsto> PInt 60], [''popularity'' \<mapsto> PInt 100]]
   \<and> popularity_ranges
       [[''popularity'' \<mapsto> PInt 0], [''popularity'' \<mapsto> PInt 20], [''popularity'' \<mapsto> PInt 21],
        [''popularity'' \<mapsto> PInt 60], [''popularity'' \<mapsto> PInt 100]] popularity_init =
       Inr [(''0-20'', 2), (''21-40'', 1), (''41-60'', 1), (''61-80'', 0), (''81-100'', 1)]"
proof -
  let ?data = "[[''popularity'' \<mapsto> PInt 0], [''popularity'' \<mapsto> PInt 20],
      [''popularity'' \<mapsto> PInt 21], [''popularity'' \<mapsto> PInt 60], [''popularity'' \<mapsto> PInt 100 :: pyval]]"
  have h: "\<forall>s\<in>set ?data. pop_in 0 100 s" by (simp add: pop_in_def)
  have h': "list_all (pop_in 0 100) ?data" by (simp add: pop_in_def)
  have c: "[(''0-20'', length (filter (pop_in 0 20) ?data)),
                (''21-40'', length (filter (pop_in 21 40) ?data)),
                (''41-60'', length (filter (pop_in 41 60) ?data)),
                (''61-80'', length (filter (pop_in 61 80) ?data)),
                (''81-100'', length (filter (pop_in 81 100) ?data))] =
        [(''0-20'', 2), (''21-40'', 1), (''41-60'', 1), (''61-80'', 0), (''81-100'', 1)]"
    by (simp add: pop_in_def)
  from popularity_buckets_partition[OF h]
  have "popularity_ranges ?data popularity_init =
           Inr [(''0-20'', length (filter (pop_in 0 20) ?data)),
                (''21-40'', length (filter (pop_in 21 40) ?data)),
                (''41-60'', length (filter (pop_in 41 60) ?data)),
                (''61-80'', length (filter (pop_in 61 80) ?data)),
                (''81-100'', length (filter (pop_in 81 100) ?data))]"
    by blast
  then have "popularity_ranges ?data popularity_init =
       Inr [(''0-20'', 2), (''21-40'', 1), (''41-60'', 1), (''61-80'', 0), (''81-100'', 1)]"
    unfolding c .
  with h' show ?thesis by blast
qed

text \<open>
  C8. On the empty sequence \<^verbatim>\<open>get_statistics\<close> returns: zero songs, zero hours, zero
  averages, zero explicit count and percentage, no artist and no album, empty top lists, an
  empty decade histogram and a popularity histogram whose five counters are zero. The
  three quotients by the number of songs are guarded: on the empty sequence the sum is the
  integer 0 and its quotient by the number of songs raises \<^verbatim>\<open>ZeroDivisionError\<close>, and the
  test \<^verbatim>\<open>total_songs > 0\<close> keeps the computation from reaching it. \<^verbatim>\<open>get_graph_data\<close>
  returns the payload with no node and no link.
\<close>

theorem empty_input_defined:
  "get_statistics [] =
     Inr \<lparr>total_songs = 0, total_hours = 0, avg_popularity = 0, avg_duration_min = 0,
          explicit_count = 0, explicit_percentage = 0, total_artists = 0, total_albums = 0,
          top_artists = [], top_albums = [], decade_distribution = [],
          popularity_distribution =
            [(''0-20'', 0), (''21-40'', 0), (''41-60'', 0), (''61-80'', 0), (''81-100'', 0)]\<rparr>
   \<and> sum_item ''popularity'' (NInt 0) [] = Inr (NInt 0)
   \<and> py_truediv (NInt 0) (NInt (int (length ([] :: song list)))) = Inl ZeroDivisionError
   \<and> mean_item ''popularity'' [] = Inr 0
   \<and> mean_item ''duration_minutes'' [] = Inr 0
   \<and> get_graph_data py_str [] =
       GraphOk [] [] \<lparr>total_nodes = 0, total_links = 0, stats_artists = 0, stats_albums = 0\<rparr>"
proof -
  have s: "get_statistics [] =
     Inr \<lparr>total_songs = 0, total_hours = 0, avg_popularity = 0, avg_duration_min = 0,
          explicit_count = 0, explicit_percentage = 0, total_artists = 0, total_albums = 0,
          top_artists = [], top_albums = [], decade_distribution = [],
          popularity_distribution =
            [(''0-20'', 0), (''21-40'', 0), (''41-60'', 0), (''61-80'', 0), (''81-100'', 0)]\<rparr>"
    by (simp add: get_statistics_def and_then_def mean_item_def counter_def most_common_def
        top_k_def decade_distribution_of_def decade_labels_def popularity_init_def
        py_truediv_def float_limit_def)
  have z: "py_truediv (NInt 0) (NInt (int (length ([] :: song list)))) = Inl ZeroDivisionError"
    by (simp add: py_truediv_def)
  have m: "mean_item ''popularity'' [] = Inr 0" "mean_item ''duration_minutes'' [] = Inr 0"
    by (simp_all add: mean_item_def)
  have g: "get_graph_data py_str [] =
       GraphOk [] [] \<lparr>total_nodes = 0, total_links = 0, stats_artists = 0, stats_albums = 0\<rparr>"
    by (simp add: get_graph_data_def graph_body_def sorted_artists_def artist_songs_def
        sorted_albums_def top_k_def)
  show ?thesis using s z m g by simp
qed

lemma liked_statistics:
  "get_statistics [liked ''A; B'' ''X'' 10] =
     Inr \<lparr>total_songs = 1, total_hours = 1 / 20, avg_popularity = 10, avg_duration_min = 3,
          explicit_count = 0, explicit_percentage = 0, total_artists = 1, total_albums = 1,
          top_artists = [(PStr ''A; B'', 1)], top_albums = [(PStr ''X'', 1)],
          decade_distribution = [(''2000s'', 1)],
          popularity_distribution =
            [(''0-20'', 1), (''21-40'', 0), (''41-60'', 0), (''61-80'', 0), (''81-100'', 0)]\<rparr>"
  by code_simp

text \<open>
  C2, as the code has it. When \<^verbatim>\<open>get_statistics\<close> returns, its top-10 artist list ranks the
  names of line 42: the tokens of the artist-names field split on \<open>", "\<close> alone, neither
  trimmed nor filtered, and the field itself when it is not a string. There is no split
  on \<open>"; "\<close>. The list has at most ten entries in descending order of count, the count of
  an entry is the number of names equal to it, and no name left out has a greater count
  than a listed one.
\<close>

theorem statistics_top_artists_comma_split:
  assumes "get_statistics data = Inr st"
  shows "top_artists st = most_common 10 (counter py_eq (concat (map stat_names data)))
   \<and> (\<forall>s\<in>set data. \<forall>a. s ''artist_names'' = Some (PStr a) \<longrightarrow>
         stat_names s = map PStr (py_split '', '' a))
   \<and> length (top_artists st) \<le> 10
   \<and> sorted_wrt (\<lambda>x y. snd y \<le> snd x) (top_artists st)
   \<and> (\<forall>x\<in>set (top_artists st).
         snd x = length (filter (py_eq (fst x)) (concat (map stat_names data))))
   \<and> (\<forall>x\<in>set (top_artists st). \<forall>y\<in>set (counter py_eq (concat (map stat_names data))).
         y \<notin> set (top_artists st) \<longrightarrow> snd y \<le> snd x)"
proof -
  let ?names = "concat (map stat_names data)"
  from get_statistics_top_artists[OF assms] obtain names where
    c: "collect song_artists data = Inr names"
    and t: "top_artists st = most_common 10 (counter py_eq names)"
    by blast
  from collect_song_artists[OF c] t
  have top: "top_artists st = most_common 10 (counter py_eq ?names)" by simp
  have split: "\<forall>s\<in>set data. \<forall>a. s ''artist_names'' = Some (PStr a) \<longrightarrow>
         stat_names s = map PStr (py_split '', '' a)"
    by (simp add: stat_names_def)
  have len: "length (top_artists st) \<le> 10"
    unfolding top most_common_def
    using top_k_ranking(1)[where n = 10 and key = snd and items = "counter py_eq ?names"]
    by simp
  have srt: "sorted_wrt (\<lambda>x y. snd y \<le> snd x) (top_artists st)"
    unfolding top most_common_def
    by (rule top_k_ranking(2))
  have sub: "set (top_artists st) \<subseteq> set (counter py_eq ?names)"
    unfolding top most_common_def by (rule set_top_k)
  have cnt: "\<forall>x\<in>set (top_artists st).
         snd x = length (filter (py_eq (fst x)) ?names)"
    using sub counter_py_eq_count by blast
  have rest: "\<forall>x\<in>set (top_artists st). \<forall>y\<in>set (counter py_eq ?names).
         y \<notin> set (top_artists st) \<longrightarrow> snd y \<le> snd x"
    unfolding top using most_common_rest by blast
  show ?thesis
    by (intro conjI) (rule top split len srt cnt rest)+
qed

theorem statistics_top_artists_comma_split_witness:
  "get_statistics [liked ''A; B'' ''X'' 10] =
     Inr \<lparr>total_songs = 1, total_hours = 1 / 20, avg_popularity = 10, avg_duration_min = 3,
          explicit_count = 0, explicit_percentage = 0, total_artists = 1, total_albums = 1,
          top_artists = [(PStr ''A; B'', 1)], top_albums = [(PStr ''X'', 1)],
          decade_distribution = [(''2000s'', 1)],
          popularity_distribution =
            [(''0-20'', 1), (''21-40'', 0), (''41-60'', 0), (''61-80'', 0), (''81-100'', 0)]\<rparr>
   \<and> most_common 10 (counter py_eq (concat (map stat_names [liked ''A; B'' ''X'' 10]))) =
       [(PStr ''A; B'', 1)]
   \<and> stat_names (liked ''A; B'' ''X'' 10) = map PStr (py_split '', '' ''A; B'')"
proof -
  let ?d = "[liked ''A; B'' ''X'' 10]"
  note th = statistics_top_artists_comma_split[OF liked_statistics]
  from th[THEN conjunct1]
  have "[(PStr ''A; B'', 1)] = most_common 10 (counter py_eq (concat (map stat_names ?d)))"
    by simp
  then have a: "most_common 10 (counter py_eq (concat (map stat_names ?d))) = [(PStr ''A; B'', 1)]"
    by (rule sym)
  have f: "liked ''A; B'' ''X'' 10 ''artist_names'' = Some (PStr ''A; B'')"
    by (simp add: liked_def)
  from th[THEN conjunct2, THEN conjunct1] f have b: "stat_names (liked ''A; B'' ''X'' 10) = map PStr (py_split '', '' ''A; B'')"
    by simp
  show ?thesis using liked_statistics a b by blast
qed

theorem statistics_top_artists_counterexample:
  "map_sum id top_artists (get_statistics [liked ''A; B'' ''X'' 10]) = Inr [(PStr ''A; B'', 1)]
   \<and> spec_top_artists (\<lambda>v. ''None'') [liked ''A; B'' ''X'' 10] = [(PStr ''A'', 1), (PStr ''B'', 1)]"
proof -
  have a: "map_sum id top_artists (get_statistics [liked ''A; B'' ''X'' 10]) = Inr [(PStr ''A; B'', 1)]"
    by (simp add: liked_statistics)
  have b: "spec_top_artists (\<lambda>v. ''None'') [liked ''A; B'' ''X'' 10] = [(PStr ''A'', 1), (PStr ''B'', 1)]"
    by code_simp
  show ?thesis using a b by blast
qed

end
